theory Spec2Isabelle
  imports Complex_Main "HOL-Library.Multiset"
begin

section \<open>Genetic algorithm for the vehicle routing problem\<close>

text \<open>
  A shallow embedding of \<^verbatim>\<open>src/vrp/algorithm/chromosome.py\<close>, \<^verbatim>\<open>population.py\<close> and
  \<^verbatim>\<open>genetic.py\<close>. Python exceptions are values of \<open>py_error\<close>; a function that may
  raise returns \<open>py_error + 'a\<close>. Python integers are \<open>int\<close>. Distances are Python floats
  and are modelled as \<open>real\<close>: the additions are made in the order of the source, their
  rounding is not modelled.
\<close>

datatype py_error = IndexError | TypeError | ValueError | AttributeError | ZeroDivisionError

subsection \<open>Chromosome\<close>

text \<open>
  A gene is a Python object: an integer, or \<open>None\<close> where crossover left a position of
  \<^verbatim>\<open>[None] * chromosome_length\<close> unfilled. The attribute \<^verbatim>\<open>fitness\<close> is \<open>None\<close> until
  \<^verbatim>\<open>calculate_fitness\<close> stores a number.
\<close>

record chromosome =
  num_locations :: int
  num_vehicles :: int
  genes :: "int option list"
  fitness :: "real option"

definition depot_index :: int where
  "depot_index = - 1"

text \<open>\<^verbatim>\<open>xs[i]\<close> of Python: a negative index counts from the end, an index out of range raises.\<close>

definition py_index :: "'a list \<Rightarrow> int \<Rightarrow> py_error + 'a" where
  "py_index xs i =
     (if 0 \<le> i \<and> i < int (length xs) then Inr (xs ! nat i)
      else if i < 0 \<and> - int (length xs) \<le> i then Inr (xs ! nat (i + int (length xs)))
      else Inl IndexError)"

text \<open>
  The first loop of \<^verbatim>\<open>get_routes\<close>: the positions \<open>i\<close> with
  \<^verbatim>\<open>delimiter_start <= positions[i] < delimiter_end\<close>. Comparing an integer with \<open>None\<close>
  raises \<^verbatim>\<open>TypeError\<close>.
\<close>

fun delimiter_scan :: "int \<Rightarrow> int \<Rightarrow> nat \<Rightarrow> int option list \<Rightarrow> py_error + nat list" where
  "delimiter_scan ds de i [] = Inr []"
| "delimiter_scan ds de i (None # gs) = Inl TypeError"
| "delimiter_scan ds de i (Some g # gs) =
     (case delimiter_scan ds de (Suc i) gs of
        Inl e \<Rightarrow> Inl e
      | Inr ps \<Rightarrow> Inr (if ds \<le> g \<and> g < de then i # ps else ps))"

text \<open>
  The second loop and the last route: \<^verbatim>\<open>positions[start_idx:pos]\<close> is
  \<open>take (pos - start_idx) (drop start_idx positions)\<close>, empty when \<open>pos < start_idx\<close>.
\<close>

fun split_routes :: "int \<Rightarrow> int list \<Rightarrow> nat \<Rightarrow> nat list \<Rightarrow> int list list" where
  "split_routes n positions start_idx [] =
     [filter (\<lambda>loc. loc < n) (drop start_idx positions)]"
| "split_routes n positions start_idx (pos # ps) =
     filter (\<lambda>loc. loc < n) (take (pos - start_idx) (drop start_idx positions))
       # split_routes n positions (pos + 1) ps"

definition complete_routes :: "int list list \<Rightarrow> int list list" where
  "complete_routes routes =
     map (\<lambda>route. [depot_index] @ route @ [depot_index]) (filter (\<lambda>route. route \<noteq> []) routes)"

text \<open>Once the scan has passed, no gene is \<open>None\<close> and \<open>map the\<close> reads the integers.\<close>

definition get_routes :: "chromosome \<Rightarrow> py_error + int list list" where
  "get_routes c =
     (let delimiter_start = num_locations c;
          delimiter_end = num_locations c + num_vehicles c - 1
      in case delimiter_scan delimiter_start delimiter_end 0 (genes c) of
           Inl e \<Rightarrow> Inl e
         | Inr delimiter_positions \<Rightarrow>
             Inr (complete_routes
                    (split_routes (num_locations c) (map the (genes c)) 0
                       (sort delimiter_positions))))"

definition matrix_index :: "int \<Rightarrow> int" where
  "matrix_index v = (if v = depot_index then 0 else v + 1)"

fun route_distance :: "real list list \<Rightarrow> int list \<Rightarrow> real \<Rightarrow> py_error + real" where
  "route_distance dm (a # b # rest) acc =
     (case py_index dm (matrix_index a) of
        Inl e \<Rightarrow> Inl e
      | Inr row \<Rightarrow>
          (case py_index row (matrix_index b) of
             Inl e \<Rightarrow> Inl e
           | Inr d \<Rightarrow> route_distance dm (b # rest) (acc + d)))"
| "route_distance dm [a] acc = Inr acc"
| "route_distance dm [] acc = Inr acc"

fun total_distance :: "real list list \<Rightarrow> int list list \<Rightarrow> real \<Rightarrow> py_error + real" where
  "total_distance dm [] tot = Inr tot"
| "total_distance dm (route # routes) tot =
     (case route_distance dm route 0 of
        Inl e \<Rightarrow> Inl e
      | Inr d \<Rightarrow> total_distance dm routes (tot + d))"

text \<open>\<^verbatim>\<open>calculate_fitness\<close> returns the chromosome with its fitness stored, and the total.\<close>

definition calculate_fitness :: "chromosome \<Rightarrow> real list list \<Rightarrow> py_error + (chromosome \<times> real)" where
  "calculate_fitness c dm =
     (case get_routes c of
        Inl e \<Rightarrow> Inl e
      | Inr routes \<Rightarrow>
          (case total_distance dm routes 0 of
             Inl e \<Rightarrow> Inl e
           | Inr t \<Rightarrow> Inr (c\<lparr>fitness := Some t\<rparr>, t)))"

subsection \<open>The shared random source\<close>

text \<open>
  The module \<^verbatim>\<open>random\<close> is a global generator. It is modelled as the infinite stream of
  its raw draws, threaded through every function that calls it: a call consumes the head
  of the stream and returns the rest. The library functions are modelled by what they
  return: \<^verbatim>\<open>_randbelow(n)\<close> a number below \<open>n\<close>, \<^verbatim>\<open>random()\<close> a multiple of \<open>2^-53\<close> in
  \<open>[0, 1)\<close>, \<^verbatim>\<open>shuffle\<close> the exchanges of Fisher and Yates from the last position down,
  \<^verbatim>\<open>sample(xs, 2)\<close> two elements at distinct positions (or \<^verbatim>\<open>ValueError\<close> when \<open>xs\<close> has
  fewer than two), \<^verbatim>\<open>choice\<close> one element (or \<^verbatim>\<open>IndexError\<close> on the empty list).
\<close>

type_synonym rng = "nat \<Rightarrow> nat"

definition randbelow :: "nat \<Rightarrow> rng \<Rightarrow> nat \<times> rng" where
  "randbelow n r = (r 0 mod n, \<lambda>i. r (Suc i))"

definition random_random :: "rng \<Rightarrow> real \<times> rng" where
  "random_random r = (real_of_int (int (r 0) mod 2 ^ 53) / 2 ^ 53, \<lambda>i. r (Suc i))"

fun shuffle_loop :: "nat \<Rightarrow> 'a list \<Rightarrow> rng \<Rightarrow> 'a list \<times> rng" where
  "shuffle_loop 0 xs r = (xs, r)"
| "shuffle_loop (Suc i) xs r =
     (case randbelow (Suc i + 1) r of
        (j, r') \<Rightarrow> shuffle_loop i (xs[Suc i := xs ! j, j := xs ! Suc i]) r')"

definition random_shuffle :: "'a list \<Rightarrow> rng \<Rightarrow> 'a list \<times> rng" where
  "random_shuffle xs r = shuffle_loop (length xs - 1) xs r"

definition random_sample2 :: "'a list \<Rightarrow> rng \<Rightarrow> py_error + (('a \<times> 'a) \<times> rng)" where
  "random_sample2 xs r =
     (if length xs < 2 then Inl ValueError
      else case randbelow (length xs) r of
        (i, r1) \<Rightarrow>
          (case randbelow (length xs - 1) r1 of
             (j, r2) \<Rightarrow> Inr ((xs ! i, (xs[i := xs ! (length xs - 1)]) ! j), r2)))"

definition random_choice :: "'a list \<Rightarrow> rng \<Rightarrow> py_error + ('a \<times> rng)" where
  "random_choice xs r =
     (if xs = [] then Inl IndexError
      else case randbelow (length xs) r of (i, r') \<Rightarrow> Inr (xs ! i, r'))"

subsection \<open>Construction of a chromosome\<close>

text \<open>
  \<^verbatim>\<open>Chromosome(num_locations, num_vehicles, genes)\<close>: without genes, a shuffle of
  \<^verbatim>\<open>range(num_locations + num_vehicles - 1)\<close>, which is \<open>[0..n + m - 2]\<close> and empty when
  \<open>n + m - 1 \<le> 0\<close>.
\<close>

definition Chromosome :: "int \<Rightarrow> int \<Rightarrow> int option list option \<Rightarrow> rng \<Rightarrow> chromosome \<times> rng" where
  "Chromosome n m gs r =
     (case gs of
        None \<Rightarrow>
          (case random_shuffle [0..n + m - 1 - 1] r of
             (all_values, r') \<Rightarrow>
               (\<lparr>num_locations = n, num_vehicles = m, genes = map Some all_values,
                 fitness = None\<rparr>, r'))
      | Some g \<Rightarrow> (\<lparr>num_locations = n, num_vehicles = m, genes = g, fitness = None\<rparr>, r))"

subsection \<open>Population\<close>

record population =
  pop_size :: int
  pop_num_locations :: int
  pop_num_vehicles :: int
  distance_matrix :: "real list list"
  chromosomes :: "chromosome list"

text \<open>The loop of \<^verbatim>\<open>initialize_population\<close>, with the number of rounds still to run.\<close>

fun initialize_loop :: "nat \<Rightarrow> population \<Rightarrow> rng \<Rightarrow> py_error + (population \<times> rng)" where
  "initialize_loop 0 p r = Inr (p, r)"
| "initialize_loop (Suc k) p r =
     (case Chromosome (pop_num_locations p) (pop_num_vehicles p) None r of
        (chromosome, r') \<Rightarrow>
          (case calculate_fitness chromosome (distance_matrix p) of
             Inl e \<Rightarrow> Inl e
           | Inr (chromosome', t) \<Rightarrow>
               initialize_loop k (p\<lparr>chromosomes := chromosomes p @ [chromosome']\<rparr>) r'))"

definition initialize_population :: "population \<Rightarrow> rng \<Rightarrow> py_error + (population \<times> rng)" where
  "initialize_population p r = initialize_loop (nat (pop_size p)) (p\<lparr>chromosomes := []\<rparr>) r"

definition Population :: "int \<Rightarrow> int \<Rightarrow> int \<Rightarrow> real list list \<Rightarrow> rng \<Rightarrow> py_error + (population \<times> rng)" where
  "Population ps n m dm r =
     initialize_population
       \<lparr>pop_size = ps, pop_num_locations = n, pop_num_vehicles = m, distance_matrix = dm,
        chromosomes = []\<rparr> r"

text \<open>
  \<^verbatim>\<open>sorted(chromosomes, key=lambda x: x.fitness)\<close>: a stable sort. With two or more elements
  every key is compared, and comparing \<open>None\<close> raises \<^verbatim>\<open>TypeError\<close>; a single element is
  not compared.
\<close>

definition sorted_by_fitness :: "chromosome list \<Rightarrow> py_error + chromosome list" where
  "sorted_by_fitness cs =
     (if 2 \<le> length cs \<and> (\<exists>c \<in> set cs. fitness c = None) then Inl TypeError
      else Inr (sort_key (\<lambda>c. the (fitness c)) cs))"

definition find_best_chromosome :: "population \<Rightarrow> py_error + chromosome option" where
  "find_best_chromosome p =
     (if chromosomes p = [] then Inr None
      else case sorted_by_fitness (chromosomes p) of
        Inl e \<Rightarrow> Inl e
      | Inr sorted_chromosomes \<Rightarrow> Inr (Some (hd sorted_chromosomes)))"

text \<open>\<^verbatim>\<open>sum\<close> adds from 0, left to right; adding \<open>None\<close> raises \<^verbatim>\<open>TypeError\<close>.\<close>

definition get_average_fitness :: "population \<Rightarrow> py_error + real" where
  "get_average_fitness p =
     (if chromosomes p = [] then Inr 0
      else if \<exists>c \<in> set (chromosomes p). fitness c = None then Inl TypeError
      else Inr (foldl (+) 0 (map (\<lambda>c. the (fitness c)) (chromosomes p))
                  / real (length (chromosomes p))))"

subsection \<open>Genetic engine: construction and selection\<close>

record genetic =
  population :: population
  max_generations :: int
  mutation_rate :: real
  elitism_size :: int
  current_generation :: int
  best_solution :: chromosome
  best_fitness_history :: "real option list"
  avg_fitness_history :: "real list"

text \<open>
  \<^verbatim>\<open>Genetic.__init__\<close>. On an empty population \<^verbatim>\<open>find_best_chromosome\<close> returns \<open>None\<close> and
  \<^verbatim>\<open>best_chrom.fitness\<close> raises \<^verbatim>\<open>AttributeError\<close>, so an engine that exists has a chromosome
  as \<^verbatim>\<open>best_solution\<close>.
\<close>

definition Genetic :: "population \<Rightarrow> int \<Rightarrow> real \<Rightarrow> int \<Rightarrow> py_error + genetic" where
  "Genetic p max_gen rate elitism =
     (case find_best_chromosome p of
        Inl e \<Rightarrow> Inl e
      | Inr None \<Rightarrow> Inl AttributeError
      | Inr (Some best_chrom) \<Rightarrow>
          (case get_average_fitness p of
             Inl e \<Rightarrow> Inl e
           | Inr avg \<Rightarrow>
               Inr \<lparr>population = p, max_generations = max_gen, mutation_rate = rate,
                    elitism_size = elitism, current_generation = 0,
                    best_solution = best_chrom,
                    best_fitness_history = [fitness best_chrom],
                    avg_fitness_history = [avg]\<rparr>))"

text \<open>
  \<^verbatim>\<open>selection\<close>: binary tournaments until \<^verbatim>\<open>select_count = 2\<close> winners are collected.
  \<^verbatim>\<open><=\<close> on a fitness that is \<open>None\<close> raises \<^verbatim>\<open>TypeError\<close>.
\<close>

function selection_loop :: "population \<Rightarrow> chromosome list \<Rightarrow> rng \<Rightarrow> py_error + (chromosome list \<times> rng)" where
  "selection_loop p selected r =
     (if length selected < 2 then
        (case random_sample2 (chromosomes p) r of
           Inl e \<Rightarrow> Inl e
         | Inr ((c0, c1), r') \<Rightarrow>
             (case (fitness c0, fitness c1) of
                (Some f0, Some f1) \<Rightarrow>
                  selection_loop p (selected @ [if f0 \<le> f1 then c0 else c1]) r'
              | _ \<Rightarrow> Inl TypeError))
      else Inr (selected, r))"
  by pat_completeness auto
termination
  by (relation "measure (\<lambda>(p, selected, r). 2 - length selected)") auto

declare selection_loop.simps [simp del]

definition selection :: "population \<Rightarrow> rng \<Rightarrow> py_error + (chromosome list \<times> rng)" where
  "selection p r = selection_loop p [] r"

text \<open>
  What a winner of a binary tournament is: of two chromosomes at distinct positions of the
  population, the first when its fitness is lower or equal, else the second.
\<close>

definition tournament_winner :: "chromosome list \<Rightarrow> chromosome \<Rightarrow> bool" where
  "tournament_winner cs w \<longleftrightarrow>
     (\<exists>i < length cs. \<exists>j < length cs. i \<noteq> j \<and>
        (case (fitness (cs ! i), fitness (cs ! j)) of
           (Some f0, Some f1) \<Rightarrow> w = (if f0 \<le> f1 then cs ! i else cs ! j)
         | _ \<Rightarrow> False))"

subsection \<open>Crossover and mutation\<close>

text \<open>
  Steps 2a and 3a of \<^verbatim>\<open>crossover\<close>: positions \<open>point1 \<le> i < point2\<close> of the offspring
  receive the other parent's genes; reading past the end of that parent raises.
\<close>

fun copy_segment :: "'a list \<Rightarrow> nat list \<Rightarrow> 'a list \<Rightarrow> py_error + 'a list" where
  "copy_segment src [] off = Inr off"
| "copy_segment src (i # is) off =
     (if i < length src then copy_segment src is (off[i := src ! i]) else Inl IndexError)"

text \<open>The inner \<^verbatim>\<open>while\<close> of steps 2c and 3c: the next index of the parent whose gene is unused.\<close>

function skip_used :: "nat \<Rightarrow> 'a list \<Rightarrow> 'a set \<Rightarrow> nat \<Rightarrow> py_error + nat" where
  "skip_used len src used k =
     (if k < len then
        (if k < length src then
           (if src ! k \<in> used then skip_used len src used (k + 1) else Inr k)
         else Inl IndexError)
      else Inr k)"
  by pat_completeness auto
termination
  by (relation "measure (\<lambda>(len, src, used, k). len - k)") auto

declare skip_used.simps [simp del]

text \<open>
  The \<^verbatim>\<open>for\<close> loop of steps 2c and 3c over the positions still to visit. Its state is the
  index into the parent, the set \<^verbatim>\<open>used_values\<close> and the offspring's genes.
\<close>

fun fill_remaining ::
  "nat \<Rightarrow> nat \<Rightarrow> nat \<Rightarrow> 'a list \<Rightarrow> nat list \<Rightarrow> nat \<Rightarrow> 'a set \<Rightarrow> 'a list
     \<Rightarrow> py_error + (nat \<times> 'a set \<times> 'a list)" where
  "fill_remaining point1 point2 len src [] k used off = Inr (k, used, off)"
| "fill_remaining point1 point2 len src (i # is) k used off =
     (if point1 \<le> i \<and> i < point2 then fill_remaining point1 point2 len src is k used off
      else case skip_used len src used k of
        Inl e \<Rightarrow> Inl e
      | Inr k' \<Rightarrow>
          if k' < len then
            fill_remaining point1 point2 len src is (k' + 1) (insert (src ! k') used)
              (off[i := src ! k'])
          else fill_remaining point1 point2 len src is k' used off)"

text \<open>
  Steps 2 and 3 are the same code with the parents exchanged: \<open>donor\<close> gives the middle
  segment, \<open>filler\<close> the other positions.
\<close>

definition offspring_genes ::
  "nat \<Rightarrow> nat \<Rightarrow> nat \<Rightarrow> int option list \<Rightarrow> int option list \<Rightarrow> py_error + int option list" where
  "offspring_genes point1 point2 len donor filler =
     (case copy_segment donor [point1..<point2] (replicate len None) of
        Inl e \<Rightarrow> Inl e
      | Inr off \<Rightarrow>
          (case fill_remaining point1 point2 len filler [0..<len] 0
                  (set (take (point2 - point1) (drop point1 off))) off of
             Inl e \<Rightarrow> Inl e
           | Inr (k, used, offspring) \<Rightarrow> Inr offspring))"

definition crossover ::
  "chromosome \<Rightarrow> chromosome \<Rightarrow> rng \<Rightarrow> py_error + ((chromosome \<times> chromosome) \<times> rng)" where
  "crossover parent1 parent2 r =
     (let chromosome_length = length (genes parent1) in
      case random_sample2 [0..<chromosome_length] r of
        Inl e \<Rightarrow> Inl e
      | Inr ((a, b), r') \<Rightarrow>
          (let point1 = min a b; point2 = max a b in
           case offspring_genes point1 point2 chromosome_length (genes parent2) (genes parent1) of
             Inl e \<Rightarrow> Inl e
           | Inr offspring1_genes \<Rightarrow>
               (case offspring_genes point1 point2 chromosome_length (genes parent1) (genes parent2) of
                  Inl e \<Rightarrow> Inl e
                | Inr offspring2_genes \<Rightarrow>
                    Inr ((fst (Chromosome (num_locations parent1) (num_vehicles parent1)
                                 (Some offspring1_genes) r'),
                          fst (Chromosome (num_locations parent1) (num_vehicles parent1)
                                 (Some offspring2_genes) r')), r'))))"

definition mutate :: "chromosome \<Rightarrow> rng \<Rightarrow> py_error + (chromosome \<times> rng)" where
  "mutate c r =
     (let mutated_genes = genes c; chromosome_length = length mutated_genes in
      case random_sample2 [0..<chromosome_length] r of
        Inl e \<Rightarrow> Inl e
      | Inr ((pos1, pos2), r') \<Rightarrow>
          Inr (fst (Chromosome (num_locations c) (num_vehicles c)
                      (Some (mutated_genes[pos1 := mutated_genes ! pos2,
                                           pos2 := mutated_genes ! pos1])) r'), r'))"

subsection \<open>One generation\<close>

text \<open>\<^verbatim>\<open>xs[:e]\<close> of Python: a negative bound counts from the end.\<close>

definition py_prefix :: "'a list \<Rightarrow> int \<Rightarrow> 'a list" where
  "py_prefix xs e = (if 0 \<le> e then take (nat e) xs else take (nat (int (length xs) + e)) xs)"

text \<open>
  What the loop does with each offspring: mutation with probability \<^verbatim>\<open>mutation_rate\<close>, then
  \<^verbatim>\<open>calculate_fitness\<close>.
\<close>

definition mutate_and_evaluate :: "genetic \<Rightarrow> chromosome \<Rightarrow> rng \<Rightarrow> py_error + (chromosome \<times> rng)" where
  "mutate_and_evaluate g offspring r =
     (case random_random r of
        (u, r1) \<Rightarrow>
          (case (if u < mutation_rate g then mutate offspring r1 else Inr (offspring, r1)) of
             Inl e \<Rightarrow> Inl e
           | Inr (offspring', r2) \<Rightarrow>
               (case calculate_fitness offspring' (distance_matrix (population g)) of
                  Inl e \<Rightarrow> Inl e
                | Inr (evaluated, t) \<Rightarrow> Inr (evaluated, r2))))"

text \<open>
  The body of the \<^verbatim>\<open>while\<close> loop of \<^verbatim>\<open>create_next_generation\<close>, in two parts:
  \<open>select_parents\<close> is the call of \<^verbatim>\<open>selection\<close>, the defensive exit (\<open>None\<close>) and the two
  calls of \<^verbatim>\<open>random.choice\<close>; \<open>reproduction_round\<close> is the whole body. \<open>Break\<close> is the
  defensive exit; otherwise the round gives the first offspring, and the second when there
  is room.
\<close>

datatype round_result = Break | Offspring chromosome "chromosome option"

definition select_parents ::
  "genetic \<Rightarrow> rng \<Rightarrow> py_error + ((chromosome \<times> chromosome) option \<times> rng)" where
  "select_parents g r =
     (case selection (population g) r of
        Inl e \<Rightarrow> Inl e
      | Inr (selected, r1) \<Rightarrow>
          if length selected < 2 then Inr (None, r1)
          else
            (case random_choice selected r1 of
               Inl e \<Rightarrow> Inl e
             | Inr (parent1, r2) \<Rightarrow>
                 (case random_choice selected r2 of
                    Inl e \<Rightarrow> Inl e
                  | Inr (parent2, r3) \<Rightarrow> Inr (Some (parent1, parent2), r3))))"

definition reproduction_round ::
  "genetic \<Rightarrow> chromosome list \<Rightarrow> rng \<Rightarrow> py_error + (round_result \<times> rng)" where
  "reproduction_round g new_population r =
     (case select_parents g r of
        Inl e \<Rightarrow> Inl e
      | Inr (None, r3) \<Rightarrow> Inr (Break, r3)
      | Inr (Some (parent1, parent2), r3) \<Rightarrow>
          (case crossover parent1 parent2 r3 of
             Inl e \<Rightarrow> Inl e
           | Inr ((offspring1, offspring2), r4) \<Rightarrow>
               (case mutate_and_evaluate g offspring1 r4 of
                  Inl e \<Rightarrow> Inl e
                | Inr (o1, r5) \<Rightarrow>
                    if int (length (new_population @ [o1])) < pop_size (population g)
                    then
                      (case mutate_and_evaluate g offspring2 r5 of
                         Inl e \<Rightarrow> Inl e
                       | Inr (o2, r6) \<Rightarrow> Inr (Offspring o1 (Some o2), r6))
                    else Inr (Offspring o1 None, r5))))"

function reproduce_loop ::
  "genetic \<Rightarrow> chromosome list \<Rightarrow> rng \<Rightarrow> py_error + (chromosome list \<times> rng)" where
  "reproduce_loop g new_population r =
     (if int (length new_population) < pop_size (population g) then
        (case reproduction_round g new_population r of
           Inl e \<Rightarrow> Inl e
         | Inr (Break, r') \<Rightarrow> Inr (new_population, r')
         | Inr (Offspring o1 None, r') \<Rightarrow> reproduce_loop g (new_population @ [o1]) r'
         | Inr (Offspring o1 (Some o2), r') \<Rightarrow> reproduce_loop g (new_population @ [o1, o2]) r')
      else Inr (new_population, r))"
  by pat_completeness auto
termination
  by (relation "measure (\<lambda>(g, new_population, r).
         nat (pop_size (population g)) - length new_population)") auto

declare reproduce_loop.simps [simp del]

text \<open>
  \<^verbatim>\<open>create_next_generation\<close>. After the loop the population is replaced, the generation
  counted, and the incumbent compared with the best of the new population:
  \<^verbatim>\<open>current_best.fitness\<close> raises \<^verbatim>\<open>AttributeError\<close> on an empty population, \<^verbatim>\<open><\<close> raises
  \<^verbatim>\<open>TypeError\<close> on \<open>None\<close>.
\<close>

definition create_next_generation :: "genetic \<Rightarrow> rng \<Rightarrow> py_error + (genetic \<times> rng)" where
  "create_next_generation g r =
     (case sorted_by_fitness (chromosomes (population g)) of
        Inl e \<Rightarrow> Inl e
      | Inr sorted_chromosomes \<Rightarrow>
          (case reproduce_loop g (py_prefix sorted_chromosomes (elitism_size g)) r of
             Inl e \<Rightarrow> Inl e
           | Inr (new_population, r') \<Rightarrow>
               (let p' = (population g)\<lparr>chromosomes := new_population\<rparr> in
                case find_best_chromosome p' of
                  Inl e \<Rightarrow> Inl e
                | Inr None \<Rightarrow> Inl AttributeError
                | Inr (Some current_best) \<Rightarrow>
                    (case (fitness current_best, fitness (best_solution g)) of
                       (Some cf, Some bf) \<Rightarrow>
                         (case get_average_fitness p' of
                            Inl e \<Rightarrow> Inl e
                          | Inr avg \<Rightarrow>
                              Inr (g\<lparr>population := p',
                                     current_generation := current_generation g + 1,
                                     best_solution :=
                                       (if cf < bf then current_best else best_solution g),
                                     best_fitness_history :=
                                       best_fitness_history g @ [fitness current_best],
                                     avg_fitness_history := avg_fitness_history g @ [avg]\<rparr>,
                                   r'))
                     | _ \<Rightarrow> Inl TypeError))))"

subsection \<open>The run\<close>

text \<open>
  The messages of \<^verbatim>\<open>run(verbose=True)\<close> are not modelled, what can raise in them is:
  formatting a fitness that is \<open>None\<close> with \<^verbatim>\<open>:.2f\<close>, and the division by
  \<^verbatim>\<open>best_fitness_history[0]\<close> in the final report.
\<close>

definition progress_line :: "genetic \<Rightarrow> py_error + unit" where
  "progress_line g =
     (case find_best_chromosome (population g) of
        Inl e \<Rightarrow> Inl e
      | Inr None \<Rightarrow> Inl AttributeError
      | Inr (Some current_best) \<Rightarrow>
          if fitness current_best = None then Inl TypeError
          else (case get_average_fitness (population g) of
                  Inl e \<Rightarrow> Inl e
                | Inr avg \<Rightarrow> Inr ()))"

definition final_report :: "genetic \<Rightarrow> py_error + unit" where
  "final_report g =
     (case best_fitness_history g of
        [] \<Rightarrow> Inl IndexError
      | h0 # hs \<Rightarrow>
          (case (fitness (best_solution g), h0) of
             (Some bf, Some initial) \<Rightarrow> if initial = 0 then Inl ZeroDivisionError else Inr ()
           | _ \<Rightarrow> Inl TypeError))"

text \<open>
  The loop \<^verbatim>\<open>for generation in range(1, max_generations + 1)\<close>, with the number of rounds
  still to run and the value of \<^verbatim>\<open>generation\<close>.
\<close>

fun run_loop :: "nat \<Rightarrow> int \<Rightarrow> bool \<Rightarrow> genetic \<Rightarrow> rng \<Rightarrow> py_error + (genetic \<times> rng)" where
  "run_loop 0 generation verbose g r = Inr (g, r)"
| "run_loop (Suc k) generation verbose g r =
     (case create_next_generation g r of
        Inl e \<Rightarrow> Inl e
      | Inr (g', r') \<Rightarrow>
          (case (if verbose \<and> generation mod 10 = 0 then progress_line g' else Inr ()) of
             Inl e \<Rightarrow> Inl e
           | Inr u \<Rightarrow> run_loop k (generation + 1) verbose g' r'))"

definition run :: "genetic \<Rightarrow> bool \<Rightarrow> rng \<Rightarrow> py_error + (chromosome \<times> genetic \<times> rng)" where
  "run g verbose r =
     (case (if verbose \<and> fitness (best_solution g) = None then Inl TypeError else Inr ()) of
        Inl e \<Rightarrow> Inl e
      | Inr u \<Rightarrow>
          (case run_loop (nat (max_generations g)) 1 verbose g r of
             Inl e \<Rightarrow> Inl e
           | Inr (g', r') \<Rightarrow>
               (case (if verbose then final_report g' else Inr ()) of
                  Inl e \<Rightarrow> Inl e
                | Inr u' \<Rightarrow> Inr (best_solution g', g', r'))))"

subsection \<open>Example data\<close>

text \<open>
  A depot and three locations, two vehicles, a population of three, and a random source.
  \<open>example_population\<close> is what \<open>Population 3 3 2\<close> builds from that source,
  \<open>example_engine\<close> the engine built on it, \<open>example_engine_1\<close> the engine after one
  generation and \<open>example_engine_2\<close> after the run of two generations.
\<close>

definition example_matrix :: "real list list" where
  "example_matrix = [[0, 2, 9, 4], [3, 0, 1, 7], [5, 6, 0, 2], [1, 8, 3, 0]]"

definition example_rng :: rng where
  "example_rng = (\<lambda>i. (i * 7 + 3) mod 11)"

definition example_chromosome :: "int list \<Rightarrow> real option \<Rightarrow> chromosome" where
  "example_chromosome g f = \<lparr>num_locations = 3, num_vehicles = 2, genes = map Some g, fitness = f\<rparr>"

definition example_population :: population where
  "example_population =
     \<lparr>pop_size = 3, pop_num_locations = 3, pop_num_vehicles = 2,
      distance_matrix = example_matrix,
      chromosomes = [example_chromosome [2, 0, 1, 3] (Some 18),
                     example_chromosome [3, 1, 0, 2] (Some 23),
                     example_chromosome [3, 0, 2, 1] (Some 17)]\<rparr>"

definition example_engine :: genetic where
  "example_engine =
     \<lparr>population = example_population, max_generations = 2, mutation_rate = 1 / 2,
      elitism_size = 1, current_generation = 0,
      best_solution = example_chromosome [3, 0, 2, 1] (Some 17),
      best_fitness_history = [Some 17], avg_fitness_history = [58 / 3]\<rparr>"

definition example_engine_1 :: genetic where
  "example_engine_1 =
     \<lparr>population = example_population
        \<lparr>chromosomes := [example_chromosome [3, 0, 2, 1] (Some 17),
                         example_chromosome [0, 3, 2, 1] (Some 17),
                         example_chromosome [2, 0, 3, 1] (Some 29)]\<rparr>,
      max_generations = 2, mutation_rate = 1 / 2,
      elitism_size = 1, current_generation = 1,
      best_solution = example_chromosome [3, 0, 2, 1] (Some 17),
      best_fitness_history = [Some 17, Some 17], avg_fitness_history = [58 / 3, 21]\<rparr>"

definition example_engine_2 :: genetic where
  "example_engine_2 =
     \<lparr>population = example_population
        \<lparr>chromosomes := [example_chromosome [3, 0, 2, 1] (Some 17),
                         example_chromosome [2, 3, 0, 1] (Some 13),
                         example_chromosome [0, 2, 3, 1] (Some 24)]\<rparr>,
      max_generations = 2, mutation_rate = 1 / 2,
      elitism_size = 1, current_generation = 2,
      best_solution = example_chromosome [2, 3, 0, 1] (Some 13),
      best_fitness_history = [Some 17, Some 17, Some 13],
      avg_fitness_history = [58 / 3, 21, 18]\<rparr>"

text \<open>
  A random source whose draws make both calls of \<^verbatim>\<open>random.choice\<close> return the first of the
  two selected chromosomes.
\<close>

definition example_rng_same_parent :: rng where
  "example_rng_same_parent = (\<lambda>i. if i = 2 then 1 else 0)"

text \<open>
  A configuration with \<open>pop_size = 1\<close>, \<open>num_vehicles = 0\<close> and \<open>elitism_size = 5\<close>: the
  population that \<open>Population 1 3 0\<close> builds and the engine built on it.
\<close>

definition degenerate_population :: population where
  "degenerate_population =
     \<lparr>pop_size = 1, pop_num_locations = 3, pop_num_vehicles = 0,
      distance_matrix = example_matrix,
      chromosomes = [\<lparr>num_locations = 3, num_vehicles = 0, genes = [Some 0, Some 1],
                      fitness = Some 8\<rparr>]\<rparr>"

definition degenerate_engine :: genetic where
  "degenerate_engine =
     \<lparr>population = degenerate_population, max_generations = 2, mutation_rate = 1 / 2,
      elitism_size = 5, current_generation = 0,
      best_solution = \<lparr>num_locations = 3, num_vehicles = 0, genes = [Some 0, Some 1],
                        fitness = Some 8\<rparr>,
      best_fitness_history = [Some 8], avg_fitness_history = [8]\<rparr>"

section \<open>Evaluation of the example\<close>

lemma example_population_built:
  "\<exists>r'. Population 3 3 2 example_matrix example_rng = Inr (example_population, r')"
proof -
  have "map_sum id fst (Population 3 3 2 example_matrix example_rng) = Inr example_population"
    by code_simp
  then show ?thesis
    by (cases "Population 3 3 2 example_matrix example_rng") auto
qed

lemma example_engine_built:
  "Genetic example_population 2 (1 / 2) 1 = Inr example_engine"
  by code_simp

lemma example_generation:
  "\<exists>r'. create_next_generation example_engine example_rng = Inr (example_engine_1, r')"
proof -
  have "map_sum id fst (create_next_generation example_engine example_rng) = Inr example_engine_1"
    by code_simp
  then show ?thesis
    by (cases "create_next_generation example_engine example_rng") auto
qed

lemma example_run:
  "\<exists>r'. run example_engine True example_rng
     = Inr (example_chromosome [2, 3, 0, 1] (Some 13), example_engine_2, r')"
proof -
  have "map_sum id (\<lambda>(c, g, r). (c, g)) (run example_engine True example_rng)
      = Inr (example_chromosome [2, 3, 0, 1] (Some 13), example_engine_2)"
    by code_simp
  then show ?thesis
    by (cases "run example_engine True example_rng") auto
qed

section \<open>Sorting, the best chromosome and the generation step\<close>

lemma sorted_by_fitness_Inr:
  assumes "sorted_by_fitness cs = Inr s"
  shows "s = sort_key (\<lambda>c. the (fitness c)) cs"
    and "mset s = mset cs" and "set s = set cs" and "length s = length cs"
  using assms by (auto simp: sorted_by_fitness_def split: if_splits)

lemma sorted_by_fitness_all_Some:
  assumes "sorted_by_fitness cs = Inr s" and "2 \<le> length cs" and "c \<in> set cs"
  shows "\<exists>f. fitness c = Some f"
  using assms by (auto simp: sorted_by_fitness_def split: if_splits)

lemma hd_sort_key_least:
  assumes "x \<in> set xs"
  shows "f (hd (sort_key f xs)) \<le> f x"
proof -
  have s: "sorted (map f (sort_key f xs))" by simp
  have ne: "sort_key f xs \<noteq> []" using assms by (metis empty_iff empty_set set_sort)
  then obtain y ys where e: "sort_key f xs = y # ys" by (cases "sort_key f xs") auto
  have "x \<in> set (y # ys)" using assms e by (metis set_sort)
  then show ?thesis using s e by auto
qed

lemma find_best_chromosome_Some:
  assumes "find_best_chromosome p = Inr (Some b)"
  shows "b \<in> set (chromosomes p)"
    and "fitness b = Some bf \<Longrightarrow> c \<in> set (chromosomes p) \<Longrightarrow> fitness c = Some f \<Longrightarrow> bf \<le> f"
proof -
  from assms obtain s where ne: "chromosomes p \<noteq> []"
    and s: "sorted_by_fitness (chromosomes p) = Inr s" and b: "b = hd s"
    by (auto simp: find_best_chromosome_def split: if_splits sum.splits)
  have s_eq: "s = sort_key (\<lambda>c. the (fitness c)) (chromosomes p)"
    using s by (rule sorted_by_fitness_Inr)
  have "s \<noteq> []" using sorted_by_fitness_Inr(4)[OF s] ne by auto
  then have "hd s \<in> set s" by simp
  then show "b \<in> set (chromosomes p)" using b sorted_by_fitness_Inr(3)[OF s] by simp
  assume bf: "fitness b = Some bf" and c: "c \<in> set (chromosomes p)" and f: "fitness c = Some f"
  have "the (fitness (hd (sort_key (\<lambda>c. the (fitness c)) (chromosomes p)))) \<le> the (fitness c)"
    using c by (rule hd_sort_key_least)
  then show "bf \<le> f" using b s_eq bf f by simp
qed

lemma find_best_chromosome_None:
  "find_best_chromosome p = Inr None \<longleftrightarrow> chromosomes p = []"
  by (auto simp: find_best_chromosome_def split: sum.splits)

lemma get_average_fitness_Inr:
  assumes "get_average_fitness p = Inr avg" and "c \<in> set (chromosomes p)"
  shows "\<exists>f. fitness c = Some f"
  using assms by (auto simp: get_average_fitness_def split: if_splits)

lemma create_next_generation_Inr:
  assumes "create_next_generation g r = Inr (g', r')"
  obtains sorted_chromosomes new_population current_best cf bf avg where
    "sorted_by_fitness (chromosomes (population g)) = Inr sorted_chromosomes"
    "reproduce_loop g (py_prefix sorted_chromosomes (elitism_size g)) r = Inr (new_population, r')"
    "find_best_chromosome ((population g)\<lparr>chromosomes := new_population\<rparr>) = Inr (Some current_best)"
    "fitness current_best = Some cf" "fitness (best_solution g) = Some bf"
    "get_average_fitness ((population g)\<lparr>chromosomes := new_population\<rparr>) = Inr avg"
    "g' = g\<lparr>population := (population g)\<lparr>chromosomes := new_population\<rparr>,
             current_generation := current_generation g + 1,
             best_solution := (if cf < bf then current_best else best_solution g),
             best_fitness_history := best_fitness_history g @ [fitness current_best],
             avg_fitness_history := avg_fitness_history g @ [avg]\<rparr>"
  using assms unfolding create_next_generation_def Let_def
  by (auto split: sum.splits option.splits prod.splits)

lemma Genetic_Inr:
  assumes "Genetic p max_gen rate elitism = Inr g"
  obtains best_chrom avg where
    "find_best_chromosome p = Inr (Some best_chrom)"
    "get_average_fitness p = Inr avg"
    "g = \<lparr>population = p, max_generations = max_gen, mutation_rate = rate,
          elitism_size = elitism, current_generation = 0, best_solution = best_chrom,
          best_fitness_history = [fitness best_chrom], avg_fitness_history = [avg]\<rparr>"
  using assms unfolding Genetic_def
  by (auto split: sum.splits option.splits)


lemma create_next_generation_history:
  assumes "create_next_generation g r = Inr (g', r')"
  shows "length (best_fitness_history g') = length (best_fitness_history g) + 1"
    and "length (avg_fitness_history g') = length (avg_fitness_history g) + 1"
    and "current_generation g' = current_generation g + 1"
    and "max_generations g' = max_generations g"
  using assms by (auto elim!: create_next_generation_Inr)

lemma run_loop_history:
  assumes "run_loop k generation verbose g r = Inr (g', r')"
  shows "length (best_fitness_history g') = length (best_fitness_history g) + k
    \<and> length (avg_fitness_history g') = length (avg_fitness_history g) + k
    \<and> current_generation g' = current_generation g + int k"
  using assms
proof (induction k arbitrary: generation g r)
  case 0
  then show ?case by simp
next
  case (Suc k)
  from Suc.prems obtain g1 r1 where
    step: "create_next_generation g r = Inr (g1, r1)"
    and rest: "run_loop k (generation + 1) verbose g1 r1 = Inr (g', r')"
    by (auto split: sum.splits if_splits)
  show ?case
    using Suc.IH[OF rest] create_next_generation_history[OF step] by simp
qed

section \<open>History length\<close>

text \<open>
  C4: for \<open>max_generations = G \<ge> 0\<close>, the engine is built with one entry in each history
  (generation 0), and when \<open>run\<close> returns, both histories have \<open>G + 1\<close> entries and \<open>G\<close>
  generations were advanced, each of which appended one entry.
\<close>

theorem history_length:
  assumes "Genetic p G rate elitism = Inr g"
    and "0 \<le> G"
    and "run g verbose r = Inr (best, g', r')"
  shows "length (best_fitness_history g) = 1 \<and> length (avg_fitness_history g) = 1
    \<and> int (length (best_fitness_history g')) = G + 1
    \<and> int (length (avg_fitness_history g')) = G + 1
    \<and> current_generation g' = G"
proof -
  from assms(1) have g0: "length (best_fitness_history g) = 1"
    "length (avg_fitness_history g) = 1" "current_generation g = 0" "max_generations g = G"
    by (auto elim!: Genetic_Inr)
  from assms(3) obtain r1 where "run_loop (nat (max_generations g)) 1 verbose g r = Inr (g', r1)"
    by (auto simp: run_def split: sum.splits if_splits)
  from run_loop_history[OF this] g0 assms(2) show ?thesis by simp
qed

theorem history_length_witness:
  "Genetic example_population 2 (1 / 2) 1 = Inr example_engine \<and> (0::int) \<le> 2
   \<and> (\<exists>r'. run example_engine True example_rng
          = Inr (example_chromosome [2, 3, 0, 1] (Some 13), example_engine_2, r'))
   \<and> int (length (best_fitness_history example_engine_2)) = 2 + 1
   \<and> int (length (avg_fitness_history example_engine_2)) = 2 + 1"
proof -
  obtain r' where run: "run example_engine True example_rng
      = Inr (example_chromosome [2, 3, 0, 1] (Some 13), example_engine_2, r')"
    using example_run by blast
  have G: "(0::int) \<le> 2" by simp
  show ?thesis
    using history_length[OF example_engine_built G run] example_engine_built G run by blast
qed

section \<open>The incumbent\<close>

text \<open>
  C3: when the engine is built, and after every generation advance, the fitness of
  \<open>best_solution\<close> is at most the fitness of every chromosome of the current population;
  a generation advance never increases it; and \<open>best_solution\<close> is replaced by the best of
  the new population exactly when that one is strictly better than the incumbent.
\<close>

theorem incumbent_tracking:
  "(Genetic p G rate elitism = Inr g0 \<longrightarrow>
      (\<exists>bf. fitness (best_solution g0) = Some bf
         \<and> (\<forall>c \<in> set (chromosomes (population g0)). \<exists>f. fitness c = Some f \<and> bf \<le> f)))
   \<and> (create_next_generation g r = Inr (g', r') \<longrightarrow>
      (\<exists>bf bf' current_best cf.
         fitness (best_solution g) = Some bf \<and> fitness (best_solution g') = Some bf'
         \<and> bf' \<le> bf
         \<and> (\<forall>c \<in> set (chromosomes (population g')). \<exists>f. fitness c = Some f \<and> bf' \<le> f)
         \<and> find_best_chromosome (population g') = Inr (Some current_best)
         \<and> fitness current_best = Some cf
         \<and> best_solution g' = (if cf < bf then current_best else best_solution g)))"
proof (intro conjI impI)
  assume "Genetic p G rate elitism = Inr g0"
  then obtain b avg where b: "find_best_chromosome p = Inr (Some b)"
    and avg: "get_average_fitness p = Inr avg"
    and g0: "population g0 = p" "best_solution g0 = b"
    by (auto elim!: Genetic_Inr)
  have "b \<in> set (chromosomes p)" using b by (rule find_best_chromosome_Some)
  then obtain bf where bf: "fitness b = Some bf"
    using get_average_fitness_Inr[OF avg] by blast
  have "\<forall>c \<in> set (chromosomes p). \<exists>f. fitness c = Some f \<and> bf \<le> f"
  proof
    fix c assume c: "c \<in> set (chromosomes p)"
    then obtain f where f: "fitness c = Some f" using get_average_fitness_Inr[OF avg] by blast
    then show "\<exists>f. fitness c = Some f \<and> bf \<le> f"
      using find_best_chromosome_Some(2)[OF b bf c f] by simp
  qed
  then show "\<exists>bf. fitness (best_solution g0) = Some bf
         \<and> (\<forall>c \<in> set (chromosomes (population g0)). \<exists>f. fitness c = Some f \<and> bf \<le> f)"
    using bf g0 by simp
next
  assume "create_next_generation g r = Inr (g', r')"
  then obtain new_population current_best cf bf avg where
    b: "find_best_chromosome ((population g)\<lparr>chromosomes := new_population\<rparr>) = Inr (Some current_best)"
    and cf: "fitness current_best = Some cf" and bf: "fitness (best_solution g) = Some bf"
    and avg: "get_average_fitness ((population g)\<lparr>chromosomes := new_population\<rparr>) = Inr avg"
    and g': "population g' = (population g)\<lparr>chromosomes := new_population\<rparr>"
      "best_solution g' = (if cf < bf then current_best else best_solution g)"
    by (auto elim!: create_next_generation_Inr)
  let ?bf' = "if cf < bf then cf else bf"
  have 1: "fitness (best_solution g') = Some ?bf'" using g' cf bf by simp
  have 2: "\<forall>c \<in> set (chromosomes (population g')). \<exists>f. fitness c = Some f \<and> ?bf' \<le> f"
  proof
    fix c assume c: "c \<in> set (chromosomes (population g'))"
    then have c': "c \<in> set (chromosomes ((population g)\<lparr>chromosomes := new_population\<rparr>))"
      using g' by simp
    then obtain f where f: "fitness c = Some f" using get_average_fitness_Inr[OF avg] by blast
    have "cf \<le> f" using find_best_chromosome_Some(2)[OF b cf c' f] .
    then show "\<exists>f. fitness c = Some f \<and> ?bf' \<le> f" using f by auto
  qed
  show "\<exists>bf bf' current_best cf.
         fitness (best_solution g) = Some bf \<and> fitness (best_solution g') = Some bf'
         \<and> bf' \<le> bf
         \<and> (\<forall>c \<in> set (chromosomes (population g')). \<exists>f. fitness c = Some f \<and> bf' \<le> f)
         \<and> find_best_chromosome (population g') = Inr (Some current_best)
         \<and> fitness current_best = Some cf
         \<and> best_solution g' = (if cf < bf then current_best else best_solution g)"
    using bf 1 2 b cf g' by (intro exI[of _ bf] exI[of _ ?bf'] exI[of _ current_best] exI[of _ cf]) simp
qed

theorem incumbent_tracking_witness:
  "Genetic example_population 2 (1 / 2) 1 = Inr example_engine
   \<and> (\<exists>r'. create_next_generation example_engine example_rng = Inr (example_engine_1, r'))
   \<and> (\<exists>bf. fitness (best_solution example_engine) = Some bf
         \<and> (\<forall>c \<in> set (chromosomes (population example_engine)).
               \<exists>f. fitness c = Some f \<and> bf \<le> f))
   \<and> (\<exists>bf bf'. fitness (best_solution example_engine) = Some bf
         \<and> fitness (best_solution example_engine_1) = Some bf' \<and> bf' \<le> bf
         \<and> (\<forall>c \<in> set (chromosomes (population example_engine_1)).
               \<exists>f. fitness c = Some f \<and> bf' \<le> f))"
proof -
  obtain r' where step: "create_next_generation example_engine example_rng
      = Inr (example_engine_1, r')"
    using example_generation by blast
  note t = incumbent_tracking[of example_population 2 "1 / 2" 1 example_engine
      example_engine example_rng example_engine_1 r']
  from t have a: "\<exists>bf. fitness (best_solution example_engine) = Some bf
         \<and> (\<forall>c \<in> set (chromosomes (population example_engine)).
               \<exists>f. fitness c = Some f \<and> bf \<le> f)"
    using example_engine_built by blast
  from t step have b: "\<exists>bf bf'. fitness (best_solution example_engine) = Some bf
         \<and> fitness (best_solution example_engine_1) = Some bf' \<and> bf' \<le> bf
         \<and> (\<forall>c \<in> set (chromosomes (population example_engine_1)).
               \<exists>f. fitness c = Some f \<and> bf' \<le> f)"
    by blast
  show ?thesis using example_engine_built step a b by blast
qed


section \<open>Selection, the reproduction loop and the population\<close>

lemma random_sample2_Inr:
  assumes "random_sample2 xs r = Inr ((a, b), r')"
  shows "a \<in> set xs" and "b \<in> set xs" and "2 \<le> length xs"
    and "\<exists>i j. i < length xs \<and> j < length xs \<and> i \<noteq> j \<and> a = xs ! i \<and> b = xs ! j"
proof -
  from assms have len: "2 \<le> length xs"
    by (auto simp: random_sample2_def split: if_splits)
  define i where "i = r 0 mod length xs"
  define j where "j = r (Suc 0) mod (length xs - 1)"
  have pos: "0 < length xs" "0 < length xs - 1" using len by arith+
  have i: "i < length xs" unfolding i_def using pos(1) by (rule mod_less_divisor)
  have j: "j < length xs - 1" unfolding j_def using pos(2) by (rule mod_less_divisor)
  from assms len have a: "a = xs ! i" and b: "b = (xs[i := xs ! (length xs - 1)]) ! j"
    by (auto simp: random_sample2_def randbelow_def i_def j_def split: if_splits)
  define j' where "j' = (if j = i then length xs - 1 else j)"
  have b': "b = xs ! j'" using b i j by (auto simp: j'_def nth_list_update)
  have j': "j' < length xs" "j' \<noteq> i" using i j by (auto simp: j'_def)
  show "2 \<le> length xs" by fact
  show "a \<in> set xs" using a i by simp
  show "b \<in> set xs" using b' j' by simp
  show "\<exists>i j. i < length xs \<and> j < length xs \<and> i \<noteq> j \<and> a = xs ! i \<and> b = xs ! j"
    using a b' i j' by blast
qed

lemma selection_loop_Inr:
  assumes "selection_loop p selected r = Inr (selected', r')" and "length selected \<le> 2"
  shows "length selected' = 2 \<and> set selected' \<subseteq> set selected \<union> set (chromosomes p)"
  using assms
proof (induction "2 - length selected" arbitrary: selected r)
  case 0
  then show ?case by (simp add: selection_loop.simps)
next
  case (Suc k)
  then have lt: "length selected < 2" by simp
  from Suc.prems(1) lt obtain c0 c1 r1 f0 f1 where
    s: "random_sample2 (chromosomes p) r = Inr ((c0, c1), r1)"
    and f: "fitness c0 = Some f0" "fitness c1 = Some f1"
    and rec: "selection_loop p (selected @ [if f0 \<le> f1 then c0 else c1]) r1 = Inr (selected', r')"
    by (subst (asm) selection_loop.simps) (auto split: sum.splits option.splits prod.splits)
  have k: "k = 2 - length (selected @ [if f0 \<le> f1 then c0 else c1])"
    using Suc.hyps(2) by simp
  have "length (selected @ [if f0 \<le> f1 then c0 else c1]) \<le> 2" using lt by simp
  from Suc.hyps(1)[OF k rec this]
  show ?case using random_sample2_Inr(1,2)[OF s] by (auto split: if_splits)
qed

lemma selection_Inr:
  assumes "selection p r = Inr (selected, r')"
  shows "length selected = 2" and "set selected \<subseteq> set (chromosomes p)"
  using selection_loop_Inr[of p "[]" r selected r'] assms by (auto simp: selection_def)

lemma random_choice_Inr:
  assumes "random_choice xs r = Inr (x, r')"
  shows "x \<in> set xs"
proof -
  from assms have ne: "xs \<noteq> []" and x: "x = xs ! (r 0 mod length xs)"
    by (auto simp: random_choice_def randbelow_def split: if_splits)
  have "r 0 mod length xs < length xs" using ne by (intro mod_less_divisor) simp
  then show ?thesis using x by simp
qed

lemma select_parents_Inr:
  assumes "select_parents g r = Inr (res, r')"
  obtains selected r1 parent1 r2 parent2 where
    "selection (population g) r = Inr (selected, r1)" "length selected = 2"
    "random_choice selected r1 = Inr (parent1, r2)"
    "random_choice selected r2 = Inr (parent2, r')"
    "res = Some (parent1, parent2)"
proof -
  from assms obtain selected r1 where s: "selection (population g) r = Inr (selected, r1)"
    by (auto simp: select_parents_def split: sum.splits)
  have len: "length selected = 2" using s by (rule selection_Inr)
  with assms s obtain parent1 r2 parent2 where
    "random_choice selected r1 = Inr (parent1, r2)"
    "random_choice selected r2 = Inr (parent2, r')"
    "res = Some (parent1, parent2)"
    by (auto simp: select_parents_def split: sum.splits)
  with s len that show ?thesis by blast
qed

lemma reproduction_round_not_Break:
  "reproduction_round g new_population r \<noteq> Inr (Break, r')"
proof
  assume a: "reproduction_round g new_population r = Inr (Break, r')"
  then obtain res r3 where sp: "select_parents g r = Inr (res, r3)"
    by (auto simp: reproduction_round_def split: sum.splits)
  then obtain parent1 parent2 where "res = Some (parent1, parent2)"
    by (auto elim!: select_parents_Inr)
  with a sp show False
    by (auto simp: reproduction_round_def split: sum.splits prod.splits if_splits)
qed

lemma mutate_and_evaluate_fitness:
  assumes "mutate_and_evaluate g c r = Inr (c', r')"
  shows "\<exists>f. fitness c' = Some f"
  using assms
  by (auto simp: mutate_and_evaluate_def calculate_fitness_def random_random_def
      split: sum.splits prod.splits if_splits)

lemma reproduction_round_Offspring:
  assumes "reproduction_round g new_population r = Inr (Offspring o1 o2, r')"
  shows "(\<exists>f. fitness o1 = Some f)"
    and "o2 = None \<longleftrightarrow> \<not> int (length new_population) + 1 < pop_size (population g)"
    and "\<And>c. o2 = Some c \<Longrightarrow> \<exists>f. fitness c = Some f"
  using assms
  by (auto simp: reproduction_round_def split: sum.splits prod.splits if_splits option.splits
      dest: mutate_and_evaluate_fitness)

lemma reproduce_loop_Inr:
  assumes "reproduce_loop g new_population r = Inr (result, r')"
  shows "\<exists>offspring. result = new_population @ offspring
      \<and> (\<forall>c \<in> set offspring. \<exists>f. fitness c = Some f)
      \<and> (int (length new_population) \<le> pop_size (population g)
           \<longrightarrow> int (length result) = pop_size (population g))"
  using assms
proof (induction "nat (pop_size (population g)) - length new_population"
    arbitrary: new_population r rule: less_induct)
  case less
  show ?case
  proof (cases "int (length new_population) < pop_size (population g)")
    case False
    with less.prems show ?thesis by (simp add: reproduce_loop.simps)
  next
    case True
    from less.prems True obtain res r1 where
      rnd: "reproduction_round g new_population r = Inr (res, r1)"
      by (subst (asm) reproduce_loop.simps) (auto split: sum.splits)
    from rnd obtain o1 o2 where res: "res = Offspring o1 o2"
      using reproduction_round_not_Break by (cases res) auto
    note props = reproduction_round_Offspring[OF rnd[unfolded res]]
    show ?thesis
    proof (cases o2)
      case None
      with less.prems True rnd res have
        rec: "reproduce_loop g (new_population @ [o1]) r1 = Inr (result, r')"
        by (subst (asm) reproduce_loop.simps) simp
      have "nat (pop_size (population g)) - length (new_population @ [o1])
          < nat (pop_size (population g)) - length new_population"
        using True by simp
      from less.hyps[OF this rec] obtain offspring where
        o: "result = (new_population @ [o1]) @ offspring"
        "\<forall>c \<in> set offspring. \<exists>f. fitness c = Some f"
        "int (length (new_population @ [o1])) \<le> pop_size (population g)
           \<longrightarrow> int (length result) = pop_size (population g)"
        by blast
      show ?thesis
        using o props(1) True by (intro exI[of _ "o1 # offspring"]) auto
    next
      case (Some c2)
      with less.prems True rnd res have
        rec: "reproduce_loop g (new_population @ [o1, c2]) r1 = Inr (result, r')"
        by (subst (asm) reproduce_loop.simps) simp
      have room: "int (length new_population) + 1 < pop_size (population g)"
        using props(2) Some by simp
      have "nat (pop_size (population g)) - length (new_population @ [o1, c2])
          < nat (pop_size (population g)) - length new_population"
        using True by simp
      from less.hyps[OF this rec] obtain offspring where
        o: "result = (new_population @ [o1, c2]) @ offspring"
        "\<forall>c \<in> set offspring. \<exists>f. fitness c = Some f"
        "int (length (new_population @ [o1, c2])) \<le> pop_size (population g)
           \<longrightarrow> int (length result) = pop_size (population g)"
        by blast
      show ?thesis
        using o props(1) props(3)[OF Some] room
        by (intro exI[of _ "o1 # c2 # offspring"]) auto
    qed
  qed
qed

lemma initialize_loop_Inr:
  assumes "initialize_loop k p r = Inr (p', r')"
  shows "\<exists>new. chromosomes p' = chromosomes p @ new \<and> length new = k
      \<and> (\<forall>c \<in> set new. \<exists>f. fitness c = Some f)
      \<and> pop_size p' = pop_size p \<and> pop_num_locations p' = pop_num_locations p
      \<and> pop_num_vehicles p' = pop_num_vehicles p \<and> distance_matrix p' = distance_matrix p"
  using assms
proof (induction k arbitrary: p r)
  case 0
  then show ?case by simp
next
  case (Suc k)
  from Suc.prems obtain c r1 c' t where
    c: "Chromosome (pop_num_locations p) (pop_num_vehicles p) None r = (c, r1)"
    and f: "calculate_fitness c (distance_matrix p) = Inr (c', t)"
    and rec: "initialize_loop k (p\<lparr>chromosomes := chromosomes p @ [c']\<rparr>) r1 = Inr (p', r')"
    by (auto split: prod.splits sum.splits)
  have c': "fitness c' = Some t"
    using f by (auto simp: calculate_fitness_def split: sum.splits)
  from Suc.IH[OF rec] obtain new where
    "chromosomes p' = (chromosomes p @ [c']) @ new" "length new = k"
    "\<forall>c \<in> set new. \<exists>f. fitness c = Some f"
    "pop_size p' = pop_size p" "pop_num_locations p' = pop_num_locations p"
    "pop_num_vehicles p' = pop_num_vehicles p" "distance_matrix p' = distance_matrix p"
    by auto
  then show ?case using c' by (intro exI[of _ "c' # new"]) auto
qed

lemma Population_Inr:
  assumes "Population ps n m dm r = Inr (p, r')"
  shows "pop_size p = ps" and "pop_num_locations p = n" and "pop_num_vehicles p = m"
    and "distance_matrix p = dm" and "length (chromosomes p) = nat ps"
    and "\<forall>c \<in> set (chromosomes p). \<exists>f. fitness c = Some f"
  using initialize_loop_Inr[of "nat ps"
      "\<lparr>pop_size = ps, pop_num_locations = n, pop_num_vehicles = m, distance_matrix = dm,
        chromosomes = []\<rparr>" r p r'] assms
  by (auto simp: Population_def initialize_population_def)

lemma py_prefix_length:
  "0 \<le> e \<Longrightarrow> int (length (py_prefix xs e)) \<le> e"
  by (simp add: py_prefix_def)

lemma sorted_by_fitness_split:
  assumes s: "sorted_by_fitness cs = Inr sorted_chromosomes"
    and c: "c \<in> set (take k sorted_chromosomes)" and d: "d \<in> set (drop k sorted_chromosomes)"
  shows "\<exists>f f'. fitness c = Some f \<and> fitness d = Some f' \<and> f \<le> f'"
proof -
  let ?key = "\<lambda>c. the (fitness c)"
  have eq: "sorted_chromosomes = sort_key ?key cs" using s by (rule sorted_by_fitness_Inr)
  have "sorted (map ?key (take k sorted_chromosomes @ drop k sorted_chromosomes))"
    unfolding append_take_drop_id eq by simp
  then have le: "?key c \<le> ?key d"
    using c d unfolding map_append sorted_append by auto
  have "0 < length (take k sorted_chromosomes)" using c by (rule length_pos_if_in_set)
  moreover have "0 < length (drop k sorted_chromosomes)" using d by (rule length_pos_if_in_set)
  ultimately have "2 \<le> length (take k sorted_chromosomes) + length (drop k sorted_chromosomes)"
    by linarith
  then have "2 \<le> length sorted_chromosomes"
    by (metis append_take_drop_id length_append)
  then have two: "2 \<le> length cs" using sorted_by_fitness_Inr(4)[OF s] by simp
  have "c \<in> set cs" "d \<in> set cs"
    using c d sorted_by_fitness_Inr(3)[OF s] by (auto dest: in_set_takeD in_set_dropD)
  then obtain f f' where "fitness c = Some f" "fitness d = Some f'"
    using sorted_by_fitness_all_Some[OF s two] by blast
  then show ?thesis using le by simp
qed

section \<open>Size of the population\<close>

text \<open>
  C9: with \<open>0 \<le> elitism_size \<le> pop_size\<close> and \<open>pop_size \<ge> 2\<close>, a population that has been
  built, and the population after a generation advance, hold exactly \<open>pop_size\<close>
  chromosomes, each with a fitness that is not \<open>None\<close>.
\<close>

theorem population_size_and_fitness:
  "(2 \<le> ps \<and> Population ps n m dm r0 = Inr (p, r0') \<longrightarrow>
      pop_size p = ps \<and> int (length (chromosomes p)) = ps
      \<and> (\<forall>c \<in> set (chromosomes p). fitness c \<noteq> None))
   \<and> (0 \<le> elitism_size g \<and> elitism_size g \<le> pop_size (population g)
      \<and> 2 \<le> pop_size (population g) \<and> create_next_generation g r = Inr (g', r') \<longrightarrow>
      pop_size (population g') = pop_size (population g)
      \<and> int (length (chromosomes (population g'))) = pop_size (population g')
      \<and> (\<forall>c \<in> set (chromosomes (population g')). fitness c \<noteq> None))"
proof (intro conjI impI)
  assume a: "2 \<le> ps \<and> Population ps n m dm r0 = Inr (p, r0')"
  then have P: "Population ps n m dm r0 = Inr (p, r0')" by simp
  show "pop_size p = ps" using Population_Inr(1)[OF P] .
  show "int (length (chromosomes p)) = ps" using Population_Inr(5)[OF P] a by simp
  show "\<forall>c \<in> set (chromosomes p). fitness c \<noteq> None" using Population_Inr(6)[OF P] by auto
next
  assume a: "0 \<le> elitism_size g \<and> elitism_size g \<le> pop_size (population g)
      \<and> 2 \<le> pop_size (population g) \<and> create_next_generation g r = Inr (g', r')"
  then obtain sorted_chromosomes new_population avg where
    loop: "reproduce_loop g (py_prefix sorted_chromosomes (elitism_size g)) r
        = Inr (new_population, r')"
    and avg: "get_average_fitness ((population g)\<lparr>chromosomes := new_population\<rparr>) = Inr avg"
    and g': "population g' = (population g)\<lparr>chromosomes := new_population\<rparr>"
    by (auto elim!: create_next_generation_Inr)
  have "int (length (py_prefix sorted_chromosomes (elitism_size g))) \<le> pop_size (population g)"
    using py_prefix_length[of "elitism_size g" sorted_chromosomes] a by linarith
  then have len: "int (length new_population) = pop_size (population g)"
    using reproduce_loop_Inr[OF loop] by blast
  show "pop_size (population g') = pop_size (population g)" using g' by simp
  show "int (length (chromosomes (population g'))) = pop_size (population g')"
    using g' len by simp
  show "\<forall>c \<in> set (chromosomes (population g')). fitness c \<noteq> None"
    using get_average_fitness_Inr[OF avg] g' by auto
qed

theorem population_size_and_fitness_witness:
  "(2::int) \<le> 3
   \<and> (\<exists>r'. Population 3 3 2 example_matrix example_rng = Inr (example_population, r'))
   \<and> elitism_size example_engine \<le> pop_size (population example_engine)
   \<and> (\<exists>r'. create_next_generation example_engine example_rng = Inr (example_engine_1, r'))
   \<and> int (length (chromosomes example_population)) = 3
   \<and> list_all (\<lambda>c. fitness c \<noteq> None) (chromosomes example_population)
   \<and> int (length (chromosomes (population example_engine_1))) = 3
   \<and> list_all (\<lambda>c. fitness c \<noteq> None) (chromosomes (population example_engine_1))"
proof -
  obtain r0' where P: "Population 3 3 2 example_matrix example_rng = Inr (example_population, r0')"
    using example_population_built by blast
  obtain r' where step: "create_next_generation example_engine example_rng
      = Inr (example_engine_1, r')"
    using example_generation by blast
  have e: "0 \<le> elitism_size example_engine"
    "elitism_size example_engine \<le> pop_size (population example_engine)"
    "2 \<le> pop_size (population example_engine)"
    "pop_size (population example_engine) = 3"
    by (simp_all add: example_engine_def example_population_def)
  note t = population_size_and_fitness[of 3 3 2 example_matrix example_rng example_population r0'
      example_engine example_rng example_engine_1 r']
  have three: "(2::int) \<le> 3" by simp
  from t three P have a: "int (length (chromosomes example_population)) = 3
      \<and> (\<forall>c \<in> set (chromosomes example_population). fitness c \<noteq> None)"
    by blast
  from t e step have b: "int (length (chromosomes (population example_engine_1))) = 3
      \<and> (\<forall>c \<in> set (chromosomes (population example_engine_1)). fitness c \<noteq> None)"
    by metis
  show ?thesis using three P step e(2) a b unfolding list_all_iff by blast
qed

section \<open>Elitism\<close>

text \<open>
  C5: with \<open>0 \<le> elitism_size \<le> pop_size\<close>, on a population of \<open>pop_size\<close> chromosomes, the
  population splits into \<open>elitism_size\<close> chromosomes (\<open>elite\<close>) whose fitness is at most that
  of each of the others, and these are, unchanged in genes and fitness, the first
  \<open>elitism_size\<close> chromosomes of the next generation.
\<close>

theorem elitism_preserved:
  assumes "create_next_generation g r = Inr (g', r')"
    and "0 \<le> elitism_size g" and "elitism_size g \<le> pop_size (population g)"
    and "int (length (chromosomes (population g))) = pop_size (population g)"
  shows "\<exists>elite others.
      mset (elite @ others) = mset (chromosomes (population g))
      \<and> int (length elite) = elitism_size g
      \<and> (\<forall>c \<in> set elite. \<forall>d \<in> set others.
            \<exists>f f'. fitness c = Some f \<and> fitness d = Some f' \<and> f \<le> f')
      \<and> take (length elite) (chromosomes (population g')) = elite"
proof -
  from assms(1) obtain sorted_chromosomes new_population where
    s: "sorted_by_fitness (chromosomes (population g)) = Inr sorted_chromosomes"
    and loop: "reproduce_loop g (py_prefix sorted_chromosomes (elitism_size g)) r
        = Inr (new_population, r')"
    and g': "population g' = (population g)\<lparr>chromosomes := new_population\<rparr>"
    by (auto elim!: create_next_generation_Inr)
  let ?k = "nat (elitism_size g)"
  let ?elite = "take ?k sorted_chromosomes" and ?others = "drop ?k sorted_chromosomes"
  have pre: "py_prefix sorted_chromosomes (elitism_size g) = ?elite"
    using assms(2) by (simp add: py_prefix_def)
  have len: "length sorted_chromosomes = length (chromosomes (population g))"
    using s by (rule sorted_by_fitness_Inr)
  have 1: "mset (?elite @ ?others) = mset (chromosomes (population g))"
    using sorted_by_fitness_Inr(2)[OF s] by simp
  have 2: "int (length ?elite) = elitism_size g"
    using len assms(2,3,4) by simp
  have 3: "\<forall>c \<in> set ?elite. \<forall>d \<in> set ?others.
      \<exists>f f'. fitness c = Some f \<and> fitness d = Some f' \<and> f \<le> f'"
    using sorted_by_fitness_split[OF s] by blast
  have k: "?k \<le> length sorted_chromosomes" using len assms(2,3,4) by simp
  from reproduce_loop_Inr[OF loop] pre obtain offspring where
    "new_population = ?elite @ offspring" by auto
  then have 4: "take (length ?elite) (chromosomes (population g')) = ?elite"
    using g' k by (simp add: min_absorb2)
  show ?thesis using 1 2 3 4 by blast
qed

theorem elitism_preserved_witness:
  "(\<exists>r'. create_next_generation example_engine example_rng = Inr (example_engine_1, r'))
   \<and> 0 \<le> elitism_size example_engine
   \<and> elitism_size example_engine \<le> pop_size (population example_engine)
   \<and> int (length (chromosomes (population example_engine))) = pop_size (population example_engine)
   \<and> (\<exists>elite others.
      mset (elite @ others) = mset (chromosomes (population example_engine))
      \<and> int (length elite) = elitism_size example_engine
      \<and> (\<forall>c \<in> set elite. \<forall>d \<in> set others.
            \<exists>f f'. fitness c = Some f \<and> fitness d = Some f' \<and> f \<le> f')
      \<and> take (length elite) (chromosomes (population example_engine_1)) = elite)"
proof -
  obtain r' where step: "create_next_generation example_engine example_rng
      = Inr (example_engine_1, r')"
    using example_generation by blast
  have e: "0 \<le> elitism_size example_engine"
    "elitism_size example_engine \<le> pop_size (population example_engine)"
    "int (length (chromosomes (population example_engine))) = pop_size (population example_engine)"
    by (simp_all add: example_engine_def example_population_def)
  show ?thesis
    using elitism_preserved[OF step e] step e by blast
qed


section \<open>Decoding a chromosome into routes\<close>

lemma delimiter_scan_Some:
  "\<exists>ps. delimiter_scan ds de i (map Some vs) = Inr ps \<and> sorted_wrt (<) ps
     \<and> (\<forall>p \<in> set ps. i \<le> p \<and> p < i + length vs \<and> ds \<le> vs ! (p - i))"
proof (induction vs arbitrary: i)
  case Nil
  then show ?case by simp
next
  case (Cons v vs)
  from Cons.IH[of "Suc i"] obtain ps where
    ps: "delimiter_scan ds de (Suc i) (map Some vs) = Inr ps" "sorted_wrt (<) ps"
    "\<forall>p \<in> set ps. Suc i \<le> p \<and> p < Suc i + length vs \<and> ds \<le> vs ! (p - Suc i)"
    by blast
  have shift: "\<forall>p \<in> set ps. i < p \<and> p < i + length (v # vs) \<and> ds \<le> (v # vs) ! (p - i)"
  proof
    fix p assume "p \<in> set ps"
    with ps(3) have p: "Suc i \<le> p" "p < Suc i + length vs" "ds \<le> vs ! (p - Suc i)" by auto
    then have "p - i = Suc (p - Suc i)" by simp
    then show "i < p \<and> p < i + length (v # vs) \<and> ds \<le> (v # vs) ! (p - i)" using p by simp
  qed
  show ?case
  proof (cases "ds \<le> v \<and> v < de")
    case True
    then have "delimiter_scan ds de i (map Some (v # vs)) = Inr (i # ps)" using ps(1) by simp
    moreover have "sorted_wrt (<) (i # ps)" using ps(2) shift by auto
    moreover have "\<forall>p \<in> set (i # ps). i \<le> p \<and> p < i + length (v # vs) \<and> ds \<le> (v # vs) ! (p - i)"
      using shift True by auto
    ultimately show ?thesis by blast
  next
    case False
    then have "delimiter_scan ds de i (map Some (v # vs)) = Inr ps" using ps(1) by auto
    moreover have "\<forall>p \<in> set ps. i \<le> p \<and> p < i + length (v # vs) \<and> ds \<le> (v # vs) ! (p - i)"
      using shift by auto
    ultimately show ?thesis using ps(2) by blast
  qed
qed

lemma split_routes_concat:
  assumes "sorted_wrt (<) ps"
    and "\<forall>p \<in> set ps. start \<le> p \<and> p < length xs \<and> n \<le> xs ! p"
  shows "concat (split_routes n xs start ps) = filter (\<lambda>loc. loc < n) (drop start xs)"
  using assms
proof (induction ps arbitrary: start)
  case Nil
  then show ?case by simp
next
  case (Cons pos ps)
  have pos: "start \<le> pos" "pos < length xs" "n \<le> xs ! pos" using Cons.prems(2) by auto
  have "\<forall>p \<in> set ps. pos + 1 \<le> p \<and> p < length xs \<and> n \<le> xs ! p"
    using Cons.prems by auto
  with Cons.IH[of "pos + 1"] Cons.prems(1) have
    IH: "concat (split_routes n xs (pos + 1) ps) = filter (\<lambda>loc. loc < n) (drop (pos + 1) xs)"
    by simp
  have "drop start xs = take (pos - start) (drop start xs) @ drop (pos - start) (drop start xs)"
    by (rule append_take_drop_id[symmetric])
  also have "drop (pos - start) (drop start xs) = drop pos xs" using pos(1) by simp
  also have "drop pos xs = xs ! pos # drop (pos + 1) xs"
    using pos(2) by (simp add: Cons_nth_drop_Suc)
  finally have "filter (\<lambda>loc. loc < n) (drop start xs)
      = filter (\<lambda>loc. loc < n) (take (pos - start) (drop start xs))
        @ filter (\<lambda>loc. loc < n) (drop (pos + 1) xs)"
    using pos(3) by (metis (mono_tags, lifting) filter.simps(2) filter_append not_le)
  then show ?case using IH by simp
qed

lemma complete_routes_concat:
  "filter (\<lambda>v. v \<noteq> depot_index) (concat (complete_routes routes))
     = filter (\<lambda>v. v \<noteq> depot_index) (concat routes)"
  by (induction routes) (auto simp: complete_routes_def)

lemma complete_routes_shape:
  assumes "route \<in> set (complete_routes routes)"
  shows "\<exists>inner. inner \<in> set routes \<and> inner \<noteq> [] \<and> route = depot_index # inner @ [depot_index]"
  using assms by (auto simp: complete_routes_def)

lemma split_routes_subset:
  assumes "seg \<in> set (split_routes n xs start ps)"
  shows "set seg \<subseteq> {v \<in> set xs. v < n}"
  using assms
proof (induction ps arbitrary: start)
  case Nil
  then show ?case by (auto dest: in_set_dropD)
next
  case (Cons pos ps)
  have "set (take (pos - start) (drop start xs)) \<subseteq> set xs"
    by (meson in_set_dropD in_set_takeD subsetI)
  then show ?case using Cons by auto
qed

lemma get_routes_Some:
  assumes "genes c = map Some vs"
  shows "\<exists>routes. get_routes c = Inr routes
      \<and> filter (\<lambda>v. v \<noteq> depot_index) (concat routes)
          = filter (\<lambda>v. v \<noteq> depot_index) (filter (\<lambda>v. v < num_locations c) vs)
      \<and> (\<forall>route \<in> set routes. \<exists>inner. inner \<noteq> []
            \<and> set inner \<subseteq> {v \<in> set vs. v < num_locations c}
            \<and> route = depot_index # inner @ [depot_index])"
proof -
  let ?n = "num_locations c"
  obtain ps where ps: "delimiter_scan ?n (?n + num_vehicles c - 1) 0 (map Some vs) = Inr ps"
    "sorted_wrt (<) ps" "\<forall>p \<in> set ps. 0 \<le> p \<and> p < 0 + length vs \<and> ?n \<le> vs ! (p - 0)"
    using delimiter_scan_Some[of ?n "?n + num_vehicles c - 1" 0 vs] by blast
  have "sorted ps" using ps(2) by (simp add: strict_sorted_imp_sorted)
  then have sort: "sort ps = ps" by (simp add: sorted_sort_id)
  have the: "map the (map Some vs) = vs" by (simp add: comp_def)
  have r: "get_routes c = Inr (complete_routes (split_routes ?n vs 0 ps))"
    using ps(1) sort the assms by (simp add: get_routes_def)
  have "concat (split_routes ?n vs 0 ps) = filter (\<lambda>loc. loc < ?n) (drop 0 vs)"
    using ps(2,3) by (intro split_routes_concat) auto
  then have 1: "filter (\<lambda>v. v \<noteq> depot_index) (concat (complete_routes (split_routes ?n vs 0 ps)))
      = filter (\<lambda>v. v \<noteq> depot_index) (filter (\<lambda>v. v < ?n) vs)"
    using complete_routes_concat[of "split_routes ?n vs 0 ps"] by simp
  have 2: "\<forall>route \<in> set (complete_routes (split_routes ?n vs 0 ps)). \<exists>inner. inner \<noteq> []
            \<and> set inner \<subseteq> {v \<in> set vs. v < ?n}
            \<and> route = depot_index # inner @ [depot_index]"
  proof
    fix route assume "route \<in> set (complete_routes (split_routes ?n vs 0 ps))"
    from complete_routes_shape[OF this] obtain inner where
      i: "inner \<in> set (split_routes ?n vs 0 ps)" "inner \<noteq> []"
      "route = depot_index # inner @ [depot_index]" by blast
    from split_routes_subset[OF i(1)] i(2,3)
    show "\<exists>inner. inner \<noteq> [] \<and> set inner \<subseteq> {v \<in> set vs. v < ?n}
            \<and> route = depot_index # inner @ [depot_index]" by blast
  qed
  show ?thesis using r 1 2 by blast
qed

lemma filter_filter_all:
  "\<forall>x \<in> set xs. P x \<Longrightarrow> filter P (filter Q xs) = filter Q xs"
  by (induction xs) auto

lemma filter_locations_upto:
  assumes "1 \<le> (m::int)"
  shows "filter (\<lambda>v. v < n) [0..n + m - 2] = [0..n - 1]"
proof (rule sorted_distinct_set_unique)
  show "sorted (filter (\<lambda>v. v < n) [0..n + m - 2])" by (rule sorted_wrt_filter) simp
  show "set (filter (\<lambda>v. v < n) [0..n + m - 2]) = set [0..n - 1]" using assms by auto
qed simp_all

lemma permutation_genes:
  assumes "mset gs = mset (map Some xs)"
  shows "gs = map Some (map the gs)" and "mset (map the gs) = mset xs"
proof -
  have "set gs = Some ` set xs" using mset_eq_setD[OF assms] by simp
  then have "\<forall>g \<in> set gs. g = Some (the g)" by auto
  then show 1: "gs = map Some (map the gs)" by (simp add: map_idI comp_def)
  have "mset (map the gs) = image_mset the (image_mset Some (mset xs))"
    using assms by simp
  then show "mset (map the gs) = mset xs" by (simp add: image_mset.compositionality comp_def)
qed

lemma get_routes_permutation:
  assumes "mset (genes c) = mset (map Some [0..num_locations c + num_vehicles c - 2])"
    and "1 \<le> num_vehicles c"
  shows "\<exists>routes. get_routes c = Inr routes
      \<and> mset (filter (\<lambda>v. v \<noteq> depot_index) (concat routes)) = mset [0..num_locations c - 1]"
proof -
  let ?n = "num_locations c" and ?m = "num_vehicles c"
  let ?vs = "map the (genes c)"
  note perm = permutation_genes[OF assms(1)]
  from get_routes_Some[OF perm(1)] obtain routes where
    r: "get_routes c = Inr routes"
    and f: "filter (\<lambda>v. v \<noteq> depot_index) (concat routes)
          = filter (\<lambda>v. v \<noteq> depot_index) (filter (\<lambda>v. v < ?n) ?vs)"
    by blast
  have "set ?vs = {0..?n + ?m - 2}" using mset_eq_setD[OF perm(2)] by simp
  then have "\<forall>v \<in> set ?vs. v \<noteq> depot_index" by (auto simp: depot_index_def)
  then have "filter (\<lambda>v. v \<noteq> depot_index) (filter (\<lambda>v. v < ?n) ?vs) = filter (\<lambda>v. v < ?n) ?vs"
    by (rule filter_filter_all)
  then have "mset (filter (\<lambda>v. v \<noteq> depot_index) (concat routes))
      = mset (filter (\<lambda>v. v < ?n) [0..?n + ?m - 2])"
    using f perm(2) by simp
  then show ?thesis using r filter_locations_upto[OF assms(2)] by simp
qed

text \<open>
  C10, as amended: for a chromosome with \<open>num_vehicles \<ge> 1\<close> whose genes are a permutation
  of \<open>0, \<dots>, num_locations + num_vehicles - 2\<close>, \<open>get_routes\<close> returns routes whose
  concatenation, the depot sentinels removed, holds every location
  \<open>0, \<dots>, num_locations - 1\<close> exactly once and nothing else.
\<close>

theorem routes_visit_every_location_once:
  assumes "mset (genes c) = mset (map Some [0..num_locations c + num_vehicles c - 2])"
    and "1 \<le> num_vehicles c"
  shows "\<exists>routes. get_routes c = Inr routes
      \<and> mset (filter (\<lambda>v. v \<noteq> depot_index) (concat routes)) = mset [0..num_locations c - 1]"
  using assms by (rule get_routes_permutation)

theorem routes_visit_every_location_once_witness:
  "mset (genes (example_chromosome [3, 0, 2, 1] None))
     = mset (map Some [0..num_locations (example_chromosome [3, 0, 2, 1] None)
                          + num_vehicles (example_chromosome [3, 0, 2, 1] None) - 2])
   \<and> 1 \<le> num_vehicles (example_chromosome [3, 0, 2, 1] None)
   \<and> (\<exists>routes. get_routes (example_chromosome [3, 0, 2, 1] None) = Inr routes
        \<and> mset (filter (\<lambda>v. v \<noteq> depot_index) (concat routes))
            = mset [0..num_locations (example_chromosome [3, 0, 2, 1] None) - 1])"
proof -
  let ?c = "example_chromosome [3, 0, 2, 1] None"
  have "[0..3] = [0, 1, 2, 3::int]" by code_simp
  then have p: "mset (genes ?c) = mset (map Some [0..num_locations ?c + num_vehicles ?c - 2])"
    by (simp add: example_chromosome_def)
  have m: "1 \<le> num_vehicles ?c" by (simp add: example_chromosome_def)
  show ?thesis using routes_visit_every_location_once[OF p m] p m by blast
qed

text \<open>
  C10 as stated fails without vehicles: with \<open>num_locations = 3\<close> and \<open>num_vehicles = 0\<close> the
  genes \<open>[0, 1]\<close> are a permutation of \<open>0, \<dots>, num_locations + num_vehicles - 2\<close>, and
  location 2 is in no route.
\<close>

theorem zero_vehicles_miss_a_location:
  "mset (genes \<lparr>num_locations = 3, num_vehicles = 0, genes = [Some 0, Some 1], fitness = None\<rparr>)
     = mset (map Some [0..3 + 0 - 2])
   \<and> get_routes \<lparr>num_locations = 3, num_vehicles = 0, genes = [Some 0, Some 1], fitness = None\<rparr>
     = Inr [[- 1, 0, 1, - 1]]
   \<and> (2::int) \<in> set [0..3 - 1]
   \<and> (2::int) \<notin> set (filter (\<lambda>v. v \<noteq> depot_index) (concat [[- 1, 0, 1, - 1]]))"
proof -
  have "[0..1] = [0, 1::int]" by code_simp
  then have 1: "mset (genes \<lparr>num_locations = 3, num_vehicles = 0, genes = [Some 0, Some 1],
      fitness = None\<rparr>) = mset (map Some [0..3 + 0 - 2])"
    by simp
  have 2: "get_routes \<lparr>num_locations = 3, num_vehicles = 0, genes = [Some 0, Some 1],
      fitness = None\<rparr> = Inr [[- 1, 0, 1, - 1]]"
    by (simp add: get_routes_def complete_routes_def depot_index_def)
  show ?thesis using 1 2 by (simp add: depot_index_def)
qed

section \<open>Distances and the distance matrix\<close>

lemma py_index_error:
  "py_index xs i = Inl e \<Longrightarrow> e = IndexError"
  by (auto simp: py_index_def split: if_splits)

lemma route_distance_error:
  "route_distance dm route acc = Inl e \<Longrightarrow> e = IndexError"
  by (induction dm route acc rule: route_distance.induct)
     (auto split: sum.splits dest: py_index_error)

lemma total_distance_error:
  "total_distance dm routes tot = Inl e \<Longrightarrow> e = IndexError"
  by (induction routes arbitrary: tot) (auto split: sum.splits dest: route_distance_error)

lemma route_distance_fails:
  assumes "v \<in> set (butlast route)" and "py_index dm (matrix_index v) = Inl IndexError"
  shows "route_distance dm route acc = Inl IndexError"
  using assms
proof (induction dm route acc rule: route_distance.induct)
  case (1 dm a b rest acc)
  show ?case
  proof (cases "v = a")
    case True
    with "1.prems" show ?thesis by simp
  next
    case False
    with "1.prems" have v: "v \<in> set (butlast (b # rest))" by simp
    show ?thesis
    proof (cases "py_index dm (matrix_index a)")
      case (Inl e)
      then show ?thesis using py_index_error[OF Inl] by simp
    next
      case (Inr row)
      show ?thesis
      proof (cases "py_index row (matrix_index b)")
        case (Inl e)
        then show ?thesis using py_index_error[OF Inl] Inr by simp
      next
        case inner: (Inr d)
        show ?thesis using "1.IH"[OF Inr inner v "1.prems"(2)] Inr inner by simp
      qed
    qed
  qed
qed simp_all

lemma total_distance_fails:
  assumes "route \<in> set routes" and "v \<in> set (butlast route)"
    and "py_index dm (matrix_index v) = Inl IndexError"
  shows "total_distance dm routes tot = Inl IndexError"
  using assms
proof (induction routes arbitrary: tot)
  case Nil
  then show ?case by simp
next
  case (Cons r routes)
  show ?case
  proof (cases "route_distance dm r 0")
    case (Inl e)
    then show ?thesis using route_distance_error[OF Inl] by simp
  next
    case (Inr d)
    then have "route \<noteq> r"
      using route_distance_fails[OF Cons.prems(2,3), of 0] by auto
    then have "route \<in> set routes" using Cons.prems(1) by simp
    from Cons.IH[OF this Cons.prems(2,3)] show ?thesis using Inr by simp
  qed
qed

lemma route_distance_succeeds:
  assumes "\<forall>v \<in> set route. \<exists>row. py_index dm (matrix_index v) = Inr row
      \<and> (\<forall>w \<in> set route. \<exists>d. py_index row (matrix_index w) = Inr d)"
  shows "\<exists>t. route_distance dm route acc = Inr t"
  using assms
proof (induction dm route acc rule: route_distance.induct)
  case (1 dm a b rest acc)
  from "1.prems" obtain row where row: "py_index dm (matrix_index a) = Inr row"
    "\<forall>w \<in> set (a # b # rest). \<exists>d. py_index row (matrix_index w) = Inr d"
    by auto
  then obtain d where d: "py_index row (matrix_index b) = Inr d" by auto
  have "\<forall>v \<in> set (b # rest). \<exists>row. py_index dm (matrix_index v) = Inr row
      \<and> (\<forall>w \<in> set (b # rest). \<exists>d. py_index row (matrix_index w) = Inr d)"
    using "1.prems" by (metis list.set_intros(2))
  from "1.IH"[OF row(1) d this] show ?case using row(1) d by simp
qed simp_all

lemma total_distance_succeeds:
  assumes "\<forall>route \<in> set routes. \<forall>v \<in> set route. \<exists>row. py_index dm (matrix_index v) = Inr row
      \<and> (\<forall>w \<in> set route. \<exists>d. py_index row (matrix_index w) = Inr d)"
  shows "\<exists>t. total_distance dm routes tot = Inr t"
  using assms
proof (induction routes arbitrary: tot)
  case Nil
  then show ?case by simp
next
  case (Cons r routes)
  then obtain d where "route_distance dm r 0 = Inr d"
    using route_distance_succeeds[of r dm 0] by auto
  then show ?case using Cons by simp
qed

lemma shuffle_loop_mset:
  assumes "i < length xs \<or> i = 0"
  shows "mset (fst (shuffle_loop i xs r)) = mset xs"
  using assms
proof (induction i arbitrary: xs r)
  case 0
  then show ?case by simp
next
  case (Suc i)
  then have len: "Suc i < length xs" by simp
  define j where "j = r 0 mod (Suc i + 1)"
  have "j < Suc i + 1" unfolding j_def by (rule mod_less_divisor) simp
  then have j: "j < length xs" using len by simp
  let ?ys = "xs[Suc i := xs ! j, j := xs ! Suc i]"
  have swap: "mset ?ys = mset xs" using j len by (rule mset_swap)
  have "i < length ?ys \<or> i = 0" using len by simp
  from Suc.IH[OF this] have "mset (fst (shuffle_loop i ?ys (\<lambda>k. r (Suc k)))) = mset ?ys" .
  then show ?case using swap by (simp add: randbelow_def j_def)
qed

lemma random_shuffle_mset:
  "mset (fst (random_shuffle xs r)) = mset xs"
  unfolding random_shuffle_def by (rule shuffle_loop_mset) (cases xs; simp)

lemma Chromosome_None:
  assumes "Chromosome n m None r = (c, r')"
  shows "num_locations c = n" and "num_vehicles c = m" and "fitness c = None"
    and "mset (genes c) = mset (map Some [0..n + m - 2])"
proof -
  obtain all_values r1 where sh: "random_shuffle [0..n + m - 1 - 1] r = (all_values, r1)"
    by (cases "random_shuffle [0..n + m - 1 - 1] r")
  with assms have c: "c = \<lparr>num_locations = n, num_vehicles = m, genes = map Some all_values,
      fitness = None\<rparr>"
    by (simp add: Chromosome_def)
  show "num_locations c = n" "num_vehicles c = m" "fitness c = None" using c by simp_all
  have "mset all_values = mset [0..n + m - 1 - 1]"
    using random_shuffle_mset[of "[0..n + m - 1 - 1]" r] sh by simp
  moreover have "n + m - 1 - 1 = n + m - 2" by simp
  ultimately show "mset (genes c) = mset (map Some [0..n + m - 2])" using c by simp
qed

lemma calculate_fitness_fails:
  assumes "mset (genes c) = mset (map Some [0..num_locations c + num_vehicles c - 2])"
    and "1 \<le> num_locations c" and "1 \<le> num_vehicles c"
    and "int (length dm) < num_locations c + 1"
  shows "calculate_fitness c dm = Inl IndexError"
proof -
  let ?n = "num_locations c"
  from get_routes_permutation[OF assms(1,3)] obtain routes where
    r: "get_routes c = Inr routes"
    and m: "mset (filter (\<lambda>v. v \<noteq> depot_index) (concat routes)) = mset [0..?n - 1]"
    by blast
  have shape: "\<forall>route \<in> set routes. \<exists>inner. inner \<noteq> [] \<and> route = depot_index # inner @ [depot_index]"
    using get_routes_Some[OF permutation_genes(1)[OF assms(1)]] r by fastforce
  have "?n - 1 \<in> set [0..?n - 1]" using assms(2) by simp
  then have "?n - 1 \<in> set (filter (\<lambda>v. v \<noteq> depot_index) (concat routes))"
    using mset_eq_setD[OF m] by simp
  then obtain route where route: "route \<in> set routes" "?n - 1 \<in> set route" by auto
  then obtain inner where inner: "route = depot_index # inner @ [depot_index]"
    using shape by blast
  have nd: "?n - 1 \<noteq> depot_index" using assms(2) by (simp add: depot_index_def)
  then have "?n - 1 \<in> set inner" using route(2) inner by auto
  then have v: "?n - 1 \<in> set (butlast route)" using inner by (simp add: butlast_append)
  have "py_index dm (matrix_index (?n - 1)) = Inl IndexError"
    using nd assms(2,4) by (simp add: matrix_index_def py_index_def)
  from total_distance_fails[OF route(1) v this]
  show ?thesis using r by (simp add: calculate_fitness_def)
qed

text \<open>
  C8: with \<open>num_locations \<ge> 1\<close>, \<open>num_vehicles \<ge> 1\<close> and \<open>pop_size \<ge> 1\<close>, a distance matrix
  with fewer than \<open>num_locations + 1\<close> rows makes the construction of the population fail
  with \<^verbatim>\<open>IndexError\<close>, in the fitness evaluation of its first chromosome, whatever the
  random source.
\<close>

theorem small_matrix_fails_at_construction:
  assumes "1 \<le> n" and "1 \<le> m" and "1 \<le> ps" and "int (length dm) < n + 1"
  shows "Population ps n m dm r = Inl IndexError"
proof -
  obtain k where k: "nat ps = Suc k" using assms(3) by (cases "nat ps") auto
  let ?p = "\<lparr>pop_size = ps, pop_num_locations = n, pop_num_vehicles = m, distance_matrix = dm,
        chromosomes = []\<rparr>"
  obtain c r1 where c: "Chromosome n m None r = (c, r1)" by (cases "Chromosome n m None r")
  note props = Chromosome_None[OF c]
  have "calculate_fitness c dm = Inl IndexError"
    using props assms by (intro calculate_fitness_fails) simp_all
  then have "initialize_loop (Suc k) ?p r = Inl IndexError" using c by simp
  then show ?thesis using k by (simp add: Population_def initialize_population_def)
qed

theorem small_matrix_fails_at_construction_witness:
  "(1::int) \<le> 3 \<and> (1::int) \<le> 2 \<and> int (length [[0, 1], [1, 0::real]]) < 3 + 1
   \<and> Population 3 3 2 [[0, 1], [1, 0]] example_rng = Inl IndexError"
proof -
  have h: "(1::int) \<le> 3" "(1::int) \<le> 2" "int (length [[0, 1], [1, 0::real]]) < 3 + 1"
    by simp_all
  show ?thesis
    using small_matrix_fails_at_construction[OF h(1) h(2) h(1) h(3), of example_rng] h by blast
qed

section \<open>Construction with degenerate parameters\<close>

lemma calculate_fitness_succeeds:
  assumes "mset (genes c) = mset (map Some [0..num_locations c + num_vehicles c - 2])"
    and "num_locations c + 1 \<le> int (length dm)"
    and "\<forall>row \<in> set dm. num_locations c + 1 \<le> int (length row)"
  shows "\<exists>t. calculate_fitness c dm = Inr (c\<lparr>fitness := Some t\<rparr>, t)"
proof -
  let ?n = "num_locations c" and ?vs = "map the (genes c)"
  note perm = permutation_genes[OF assms(1)]
  from get_routes_Some[OF perm(1)] obtain routes where
    r: "get_routes c = Inr routes"
    and shape: "\<forall>route \<in> set routes. \<exists>inner. inner \<noteq> []
            \<and> set inner \<subseteq> {v \<in> set ?vs. v < ?n}
            \<and> route = depot_index # inner @ [depot_index]"
    by blast
  have vs: "set ?vs = {0..?n + num_vehicles c - 2}" using mset_eq_setD[OF perm(2)] by simp
  have range: "0 \<le> matrix_index v \<and> matrix_index v \<le> ?n"
    if "route \<in> set routes" "v \<in> set route" for route v
  proof -
    from shape that(1) obtain inner where inner: "inner \<noteq> []"
      "set inner \<subseteq> {v \<in> set ?vs. v < ?n}" "route = depot_index # inner @ [depot_index]"
      by blast
    have loc: "0 \<le> w \<and> w < ?n" if "w \<in> set inner" for w
      using that inner(2) vs by auto
    obtain w where "w \<in> set inner" using inner(1) by (cases inner) auto
    then have n: "0 < ?n" using loc by force
    show ?thesis
    proof (cases "v = depot_index")
      case True
      then show ?thesis using n by (simp add: matrix_index_def)
    next
      case False
      then have "v \<in> set inner" using that(2) inner(3) by auto
      then show ?thesis using loc[of v] False by (simp add: matrix_index_def)
    qed
  qed
  have idx: "\<exists>x. py_index xs i = Inr x \<and> x = xs ! nat i" if "0 \<le> i" "i \<le> ?n" "?n + 1 \<le> int (length xs)"
    for xs :: "'a list" and i
    using that by (simp add: py_index_def)
  have "\<forall>route \<in> set routes. \<forall>v \<in> set route. \<exists>row. py_index dm (matrix_index v) = Inr row
      \<and> (\<forall>w \<in> set route. \<exists>d. py_index row (matrix_index w) = Inr d)"
  proof (intro ballI)
    fix route v assume rt: "route \<in> set routes" and v: "v \<in> set route"
    from range[OF rt v] have mi: "0 \<le> matrix_index v" "matrix_index v \<le> ?n" by simp_all
    from idx[OF mi assms(2)] obtain row where row: "py_index dm (matrix_index v) = Inr row"
      "row = dm ! nat (matrix_index v)" by blast
    have "nat (matrix_index v) < length dm" using mi assms(2) by linarith
    then have "row \<in> set dm" using row(2) by simp
    then have len: "?n + 1 \<le> int (length row)" using assms(3) by blast
    have "\<forall>w \<in> set route. \<exists>d. py_index row (matrix_index w) = Inr d"
    proof
      fix w assume "w \<in> set route"
      from range[OF rt this] have "0 \<le> matrix_index w" "matrix_index w \<le> ?n" by simp_all
      from idx[OF this len] show "\<exists>d. py_index row (matrix_index w) = Inr d" by blast
    qed
    then show "\<exists>row. py_index dm (matrix_index v) = Inr row
      \<and> (\<forall>w \<in> set route. \<exists>d. py_index row (matrix_index w) = Inr d)"
      using row(1) by blast
  qed
  from total_distance_succeeds[OF this] obtain t where "total_distance dm routes 0 = Inr t"
    by blast
  then show ?thesis using r by (simp add: calculate_fitness_def)
qed

lemma initialize_loop_succeeds:
  assumes "pop_num_locations p + 1 \<le> int (length (distance_matrix p))"
    and "\<forall>row \<in> set (distance_matrix p). pop_num_locations p + 1 \<le> int (length row)"
  shows "\<exists>p' r'. initialize_loop k p r = Inr (p', r')"
  using assms
proof (induction k arbitrary: p r)
  case 0
  then show ?case by simp
next
  case (Suc k)
  obtain c r1 where c: "Chromosome (pop_num_locations p) (pop_num_vehicles p) None r = (c, r1)"
    by (cases "Chromosome (pop_num_locations p) (pop_num_vehicles p) None r")
  note props = Chromosome_None[OF c]
  have "\<exists>t. calculate_fitness c (distance_matrix p) = Inr (c\<lparr>fitness := Some t\<rparr>, t)"
    using props Suc.prems by (intro calculate_fitness_succeeds) simp_all
  then obtain t where t: "calculate_fitness c (distance_matrix p) = Inr (c\<lparr>fitness := Some t\<rparr>, t)"
    by blast
  let ?p = "p\<lparr>chromosomes := chromosomes p @ [c\<lparr>fitness := Some t\<rparr>]\<rparr>"
  have "\<exists>p' r'. initialize_loop k ?p r1 = Inr (p', r')"
    using Suc.prems by (intro Suc.IH) simp_all
  then show ?case using c t by simp
qed

lemma Genetic_of_evaluated:
  assumes "\<forall>c \<in> set (chromosomes p). \<exists>f. fitness c = Some f"
  shows "if chromosomes p = [] then Genetic p G rate e = Inl AttributeError
         else (\<exists>g. Genetic p G rate e = Inr g)"
proof -
  have none: "(\<exists>c \<in> set (chromosomes p). fitness c = None) = False" using assms by auto
  show ?thesis
    by (simp add: Genetic_def find_best_chromosome_def sorted_by_fitness_def
        get_average_fitness_def none)
qed

text \<open>
  C7, as amended: nothing validates the parameters. For every \<open>pop_size\<close>, \<open>num_vehicles\<close>
  and \<open>elitism_size\<close>, and a matrix of at least \<open>num_locations + 1\<close> rows and columns,
  the population is built; the engine is built on it when \<open>pop_size \<ge> 1\<close> (also for
  \<open>pop_size = 1\<close>, \<open>elitism_size > pop_size\<close> and \<open>num_vehicles < 1\<close>), and fails with
  \<^verbatim>\<open>AttributeError\<close> on the empty population when \<open>pop_size \<le> 0\<close>.
\<close>

theorem construction_accepts_degenerate_parameters:
  assumes "n + 1 \<le> int (length dm)" and "\<forall>row \<in> set dm. n + 1 \<le> int (length row)"
  shows "\<exists>p r'. Population ps n m dm r = Inr (p, r')
      \<and> (if 1 \<le> ps then (\<exists>g. Genetic p G rate e = Inr g)
          else Genetic p G rate e = Inl AttributeError)"
proof -
  let ?p = "\<lparr>pop_size = ps, pop_num_locations = n, pop_num_vehicles = m, distance_matrix = dm,
        chromosomes = []\<rparr>"
  have "\<exists>p' r'. initialize_loop (nat ps) ?p r = Inr (p', r')"
    using assms by (intro initialize_loop_succeeds) simp_all
  then obtain p r' where P: "Population ps n m dm r = Inr (p, r')"
    by (auto simp: Population_def initialize_population_def)
  have len: "length (chromosomes p) = nat ps" using Population_Inr(5)[OF P] .
  have "chromosomes p = [] \<longleftrightarrow> \<not> 1 \<le> ps" using len by auto
  then show ?thesis
    using P Genetic_of_evaluated[OF Population_Inr(6)[OF P], of G rate e] by auto
qed

theorem construction_accepts_degenerate_parameters_witness:
  "(3::int) + 1 \<le> int (length example_matrix)
   \<and> list_all (\<lambda>row. (3::int) + 1 \<le> int (length row)) example_matrix
   \<and> (\<exists>p r'. Population 1 3 0 example_matrix example_rng = Inr (p, r')
        \<and> (\<exists>g. Genetic p 2 (1 / 2) 5 = Inr g))"
proof -
  have h: "(3::int) + 1 \<le> int (length example_matrix)"
    "\<forall>row \<in> set example_matrix. (3::int) + 1 \<le> int (length row)"
    by (simp_all add: example_matrix_def)
  have one: "(1::int) \<le> 1" by simp
  show ?thesis
    using construction_accepts_degenerate_parameters[OF h, of 1 0 example_rng 2 "1 / 2" 5] h one
    unfolding list_all_iff by auto
qed

text \<open>
  C7 as stated fails: \<open>pop_size = 1\<close>, \<open>num_vehicles = 0\<close> and \<open>elitism_size = 5\<close> are
  accepted by both constructors.
\<close>

theorem degenerate_configuration_is_accepted:
  "map_sum id fst (Population 1 3 0 example_matrix example_rng) = Inr degenerate_population
   \<and> pop_size degenerate_population < 2
   \<and> pop_num_vehicles degenerate_population < 1
   \<and> Genetic degenerate_population 2 (1 / 2) 5 = Inr degenerate_engine
   \<and> elitism_size degenerate_engine > pop_size (population degenerate_engine)"
  by code_simp


section \<open>Parents of a reproduction round\<close>

lemma selection_loop_winners:
  assumes "selection_loop p selected r = Inr (selected', r')"
    and "\<forall>w \<in> set selected. tournament_winner (chromosomes p) w"
  shows "\<forall>w \<in> set selected'. tournament_winner (chromosomes p) w"
  using assms
proof (induction "2 - length selected" arbitrary: selected r)
  case 0
  then show ?case by (simp add: selection_loop.simps)
next
  case (Suc k)
  then have lt: "length selected < 2" by simp
  from Suc.prems(1) lt obtain c0 c1 r1 f0 f1 where
    s: "random_sample2 (chromosomes p) r = Inr ((c0, c1), r1)"
    and f: "fitness c0 = Some f0" "fitness c1 = Some f1"
    and rec: "selection_loop p (selected @ [if f0 \<le> f1 then c0 else c1]) r1 = Inr (selected', r')"
    by (subst (asm) selection_loop.simps) (auto split: sum.splits option.splits prod.splits)
  from random_sample2_Inr(4)[OF s] obtain i j where
    ij: "i < length (chromosomes p)" "j < length (chromosomes p)" "i \<noteq> j"
    "c0 = chromosomes p ! i" "c1 = chromosomes p ! j"
    by blast
  have "tournament_winner (chromosomes p) (if f0 \<le> f1 then c0 else c1)"
    unfolding tournament_winner_def using ij f
    by (intro exI[of _ i] conjI exI[of _ j]) auto
  then have w: "\<forall>w \<in> set (selected @ [if f0 \<le> f1 then c0 else c1]).
      tournament_winner (chromosomes p) w"
    using Suc.prems(2) by auto
  have k: "k = 2 - length (selected @ [if f0 \<le> f1 then c0 else c1])"
    using Suc.hyps(2) by simp
  from Suc.hyps(1)[OF k rec w] show ?case .
qed

lemma selection_winners:
  assumes "selection p r = Inr (selected, r')"
  shows "\<forall>w \<in> set selected. tournament_winner (chromosomes p) w"
  using selection_loop_winners[of p "[]" r selected r'] assms by (simp add: selection_def)

lemma example_round:
  "\<exists>res r'. reproduction_round example_engine [] example_rng = Inr (res, r')"
proof -
  have "isl (reproduction_round example_engine [] example_rng) = False"
    by code_simp
  then show ?thesis
    by (cases "reproduction_round example_engine [] example_rng") auto
qed

text \<open>
  C6, as amended: a reproduction round that returns has called \<open>selection\<close> once, on the
  round's random source; the selection returned exactly 2 chromosomes, each the winner of
  a binary tournament; each of the two parents given to \<open>crossover\<close> is one of these 2,
  drawn by its own call of \<^verbatim>\<open>random.choice\<close>; and the round's offspring are the offspring
  of that crossover, mutated or not, and evaluated.
\<close>

theorem parents_are_chosen_among_the_selected:
  assumes "reproduction_round g new_population r = Inr (res, r')"
  shows "\<exists>selected r1 parent1 r2 parent2 r3 offspring1 offspring2 r4 o1 o2 r5.
      selection (population g) r = Inr (selected, r1) \<and> length selected = 2
    \<and> (\<forall>w \<in> set selected. tournament_winner (chromosomes (population g)) w)
    \<and> random_choice selected r1 = Inr (parent1, r2) \<and> parent1 \<in> set selected
    \<and> random_choice selected r2 = Inr (parent2, r3) \<and> parent2 \<in> set selected
    \<and> crossover parent1 parent2 r3 = Inr ((offspring1, offspring2), r4)
    \<and> mutate_and_evaluate g offspring1 r4 = Inr (o1, r5)
    \<and> res = Offspring o1 o2
    \<and> (case o2 of None \<Rightarrow> r' = r5
        | Some c \<Rightarrow> mutate_and_evaluate g offspring2 r5 = Inr (c, r'))"
proof -
  from assms obtain sp r3 where sp: "select_parents g r = Inr (sp, r3)"
    by (auto simp: reproduction_round_def split: sum.splits)
  then obtain selected r1 parent1 r2 parent2 where
    sel: "selection (population g) r = Inr (selected, r1)" "length selected = 2"
    and c1: "random_choice selected r1 = Inr (parent1, r2)"
    and c2: "random_choice selected r2 = Inr (parent2, r3)"
    and res: "sp = Some (parent1, parent2)"
    by (auto elim!: select_parents_Inr)
  from assms sp res obtain offspring1 offspring2 r4 o1 r5 where
    x: "crossover parent1 parent2 r3 = Inr ((offspring1, offspring2), r4)"
    and m1: "mutate_and_evaluate g offspring1 r4 = Inr (o1, r5)"
    by (auto simp: reproduction_round_def split: sum.splits prod.splits)
  from assms sp res x m1 obtain o2 where
    o: "res = Offspring o1 o2"
    "case o2 of None \<Rightarrow> r' = r5 | Some c \<Rightarrow> mutate_and_evaluate g offspring2 r5 = Inr (c, r')"
    by (auto simp: reproduction_round_def split: sum.splits prod.splits if_splits)
  show ?thesis
    using sel selection_winners[OF sel(1)] c1 random_choice_Inr[OF c1] c2 random_choice_Inr[OF c2]
      x m1 o
    by blast
qed

theorem parents_are_chosen_among_the_selected_witness:
  "\<exists>res r'. reproduction_round example_engine [] example_rng = Inr (res, r')
     \<and> (\<exists>selected r1 parent1 r2 parent2 r3.
          selection (population example_engine) example_rng = Inr (selected, r1)
        \<and> length selected = 2
        \<and> random_choice selected r1 = Inr (parent1, r2) \<and> parent1 \<in> set selected
        \<and> random_choice selected r2 = Inr (parent2, r3) \<and> parent2 \<in> set selected)"
proof -
  obtain res r' where rnd: "reproduction_round example_engine [] example_rng = Inr (res, r')"
    using example_round by blast
  show ?thesis
    using parents_are_chosen_among_the_selected[OF rnd] rnd by blast
qed

text \<open>
  C6 as stated fails: the 2 selected chromosomes need not be the 2 parents. Here the
  selection returns two different chromosomes and both parents are the first of them.
\<close>

theorem both_parents_can_be_the_same_selected_chromosome:
  "map_sum id fst (selection (population example_engine) example_rng_same_parent)
     = Inr [example_chromosome [3, 0, 2, 1] (Some 17), example_chromosome [2, 0, 1, 3] (Some 18)]
   \<and> map_sum id fst (select_parents example_engine example_rng_same_parent)
     = Inr (Some (example_chromosome [3, 0, 2, 1] (Some 17),
                  example_chromosome [3, 0, 2, 1] (Some 17)))
   \<and> example_chromosome [3, 0, 2, 1] (Some 17) \<noteq> example_chromosome [2, 0, 1, 3] (Some 18)"
  by code_simp


section \<open>The concrete scenario\<close>

text \<open>
  C2: with \<open>num_locations = 5\<close>, \<open>num_vehicles = 2\<close> and genes \<open>[0,1,5,2,3,4]\<close>,
  \<open>get_routes\<close> returns \<open>[[-1,0,1,-1],[-1,2,3,4,-1]]\<close>, and for every distance matrix
  with \<open>dist[0][1]=2\<close>, \<open>dist[1][2]=3\<close>, \<open>dist[2][0]=2\<close>, \<open>dist[0][3]=4\<close>, \<open>dist[3][4]=1\<close>,
  \<open>dist[4][5]=1\<close>, \<open>dist[5][0]=3\<close> (the other entries are arbitrary) \<open>calculate_fitness\<close>
  returns 16 and stores it.
\<close>

theorem scenario_routes_and_fitness:
  "get_routes \<lparr>num_locations = 5, num_vehicles = 2,
       genes = [Some 0, Some 1, Some 5, Some 2, Some 3, Some 4], fitness = f\<rparr>
     = Inr [[- 1, 0, 1, - 1], [- 1, 2, 3, 4, - 1]]
   \<and> calculate_fitness
       \<lparr>num_locations = 5, num_vehicles = 2,
          genes = [Some 0, Some 1, Some 5, Some 2, Some 3, Some 4], fitness = f\<rparr>
       [[a00, 2, a02, 4, a04, a05],
        [a10, a11, 3, a13, a14, a15],
        [2, a21, a22, a23, a24, a25],
        [a30, a31, a32, a33, 1, a35],
        [a40, a41, a42, a43, a44, 1],
        [3, a51, a52, a53, a54, a55]]
     = Inr (\<lparr>num_locations = 5, num_vehicles = 2,
              genes = [Some 0, Some 1, Some 5, Some 2, Some 3, Some 4], fitness = Some 16\<rparr>, 16)"
proof -
  let ?c = "\<lparr>num_locations = 5, num_vehicles = 2,
       genes = [Some 0, Some 1, Some 5, Some 2, Some 3, Some 4], fitness = f\<rparr>"
  let ?dm = "[[a00, 2, a02, 4, a04, a05],
        [a10, a11, 3, a13, a14, a15],
        [2, a21, a22, a23, a24, a25],
        [a30, a31, a32, a33, 1, a35],
        [a40, a41, a42, a43, a44, 1],
        [3, a51, a52, a53, a54, a55 :: real]]"
  have r: "get_routes ?c = Inr [[- 1, 0, 1, - 1], [- 1, 2, 3, 4, - 1]]"
    by (simp add: get_routes_def complete_routes_def depot_index_def)
  have d: "total_distance ?dm [[- 1, 0, 1, - 1], [- 1, 2, 3, 4, - 1]] 0 = Inr 16"
    by (simp add: py_index_def matrix_index_def depot_index_def)
  show ?thesis
    using r d by (simp add: calculate_fitness_def)
qed

end
